theory Spec2Isabelle
  imports Complex_Main "HOL-Library.Word" "HOL-Library.List_Lexorder" "HOL-Library.AList"
    "HOL-Library.Numeral_Type"
begin

unbundle bit_operations_syntax

section \<open>Common types\<close>

type_synonym byte = "8 word"
type_synonym bytes = "byte list"
type_synonym u64 = "64 word"

text \<open>Go errors and panics are values. \<open>ErrNotFound\<close> is the sentinel of the key-value
  store; \<open>Errorf\<close> carries the message of a \<open>fmt.Errorf\<close>; \<open>IOError\<close> stands for any
  other error of a collaborator; the last three are the error variables of the VRF.\<close>

datatype go_error =
    ErrNotFound | Errorf string | TypesDontMatch | IOError nat
  | ErrMalformedInput | ErrDecodeError | ErrInternalError

section \<open>The keyserver's UpdateProfile handler (src/unnamed/part_000)\<close>

text \<open>The handler has a pointer receiver \<open>ks\<close>; the model returns the receiver's state
  along with the two results \<open>(*proto.LookupProof, error)\<close>.\<close>

definition UpdateProfile :: "'ks \<Rightarrow> 'ctx \<Rightarrow> 'req \<Rightarrow> 'ks \<times> 'proof option \<times> go_error option" where
  "UpdateProfile ks ctx req = (ks, None, Some (Errorf ''UpdateProfile not implemented''))"

section \<open>The preserve-encoding wrapper (src/proto/SignedEntryUpdate.pr.go)\<close>

text \<open>The embedded \<open>SignedEntryUpdate\<close> is generated code outside the sources at hand; its
  type is the parameter \<open>'d\<close> and its methods \<open>Marshal\<close>, \<open>Unmarshal\<close>, \<open>Equal\<close> and
  \<open>VerboseEqual\<close> are parameters of the functions that call them.\<close>

record 'd SignedEntryUpdate_PreserveEncoding =
  SignedEntryUpdate :: 'd
  PreservedEncoding :: bytes

text \<open>Go's builtin \<open>copy(dst, src)\<close>: overwrites the first \<open>min (len dst) (len src)\<close>
  elements of \<open>dst\<close> and returns that number.\<close>

definition go_copy :: "'a list \<Rightarrow> 'a list \<Rightarrow> 'a list \<times> nat" where
  "go_copy dst src =
     (let n = min (length dst) (length src) in (take n src @ drop n dst, n))"

definition UpdateEncoding ::
  "('d \<Rightarrow> bytes \<times> go_error option) \<Rightarrow> 'd SignedEntryUpdate_PreserveEncoding
     \<Rightarrow> 'd SignedEntryUpdate_PreserveEncoding \<times> go_error option" where
  "UpdateEncoding inner_Marshal m =
     (let (bs, err) = inner_Marshal (SignedEntryUpdate m)
      in (m\<lparr>PreservedEncoding := bs\<rparr>, err))"

definition Size_pe :: "'d SignedEntryUpdate_PreserveEncoding \<Rightarrow> nat" where
  "Size_pe m = length (PreservedEncoding m)"

definition MarshalTo :: "'d SignedEntryUpdate_PreserveEncoding \<Rightarrow> bytes \<Rightarrow> bytes \<times> nat \<times> go_error option" where
  "MarshalTo m data = (let (data', n) = go_copy data (PreservedEncoding m) in (data', n, None))"

definition Marshal :: "'d SignedEntryUpdate_PreserveEncoding \<Rightarrow> go_error + bytes" where
  "Marshal m =
     (let size = Size_pe m;
          data = replicate size (0 :: byte);
          (data', n, err) = MarshalTo m data
      in case err of Some e \<Rightarrow> Inl e | None \<Rightarrow> Inr (take n data'))"

definition Unmarshal ::
  "('d \<Rightarrow> bytes \<Rightarrow> 'd \<times> go_error option) \<Rightarrow> 'd SignedEntryUpdate_PreserveEncoding \<Rightarrow> bytes
     \<Rightarrow> 'd SignedEntryUpdate_PreserveEncoding \<times> go_error option" where
  "Unmarshal inner_Unmarshal m data =
     (let m1 = m\<lparr>PreservedEncoding := [] @ data\<rparr>;
          (d', err) = inner_Unmarshal (SignedEntryUpdate m1) data
      in (m1\<lparr>SignedEntryUpdate := d'\<rparr>, err))"

text \<open>The argument \<open>that interface{}\<close> of \<open>Equal\<close> and \<open>VerboseEqual\<close>: a pointer to a
  wrapper (possibly a nil pointer), a wrapper value, or a value of any other dynamic type.\<close>

datatype 'd that_arg =
    ThatPtr "'d SignedEntryUpdate_PreserveEncoding option"
  | ThatVal "'d SignedEntryUpdate_PreserveEncoding"
  | ThatOther

datatype go_panic = NilDereference | IndexOutOfRange | Panic string

text \<open>\<open>&thatP.SignedEntryUpdate\<close> on a nil \<open>thatP\<close> is a run-time panic.\<close>

definition Equal ::
  "('d \<Rightarrow> 'd \<Rightarrow> bool) \<Rightarrow> 'd SignedEntryUpdate_PreserveEncoding \<Rightarrow> 'd that_arg \<Rightarrow> go_panic + bool" where
  "Equal inner_Equal this that =
     (case that of
        ThatPtr None \<Rightarrow> Inl NilDereference
      | ThatPtr (Some thatP) \<Rightarrow> Inr (inner_Equal (SignedEntryUpdate this) (SignedEntryUpdate thatP))
      | ThatVal thatP \<Rightarrow> Inr (inner_Equal (SignedEntryUpdate this) (SignedEntryUpdate thatP))
      | ThatOther \<Rightarrow> Inr False)"

definition VerboseEqual ::
  "('d \<Rightarrow> 'd \<Rightarrow> go_error option) \<Rightarrow> 'd SignedEntryUpdate_PreserveEncoding \<Rightarrow> 'd that_arg
     \<Rightarrow> go_panic + go_error option" where
  "VerboseEqual inner_VerboseEqual this that =
     (case that of
        ThatPtr None \<Rightarrow> Inl NilDereference
      | ThatPtr (Some thatP) \<Rightarrow>
          Inr (inner_VerboseEqual (SignedEntryUpdate this) (SignedEntryUpdate thatP))
      | ThatVal thatP \<Rightarrow>
          Inr (inner_VerboseEqual (SignedEntryUpdate this) (SignedEntryUpdate thatP))
      | ThatOther \<Rightarrow> Inr (Some TypesDontMatch))"

text \<open>Replacing the preserved bytes inside the argument \<open>that\<close>.\<close>

fun that_with_bytes :: "bytes \<Rightarrow> 'd that_arg \<Rightarrow> 'd that_arg" where
  "that_with_bytes bs (ThatPtr None) = ThatPtr None"
| "that_with_bytes bs (ThatPtr (Some p)) = ThatPtr (Some (p\<lparr>PreservedEncoding := bs\<rparr>))"
| "that_with_bytes bs (ThatVal p) = ThatVal (p\<lparr>PreservedEncoding := bs\<rparr>)"
| "that_with_bytes bs ThatOther = ThatOther"

section \<open>The key-value store\<close>

text \<open>Modelled from the spec: package \<open>server/kv\<close> (\<open>kv.DB\<close>, \<open>kv.Range\<close>,
  \<open>kv.BytesPrefix\<close>, write batches) is not among the sources. The spec describes it as an
  ordered key-value store supporting \<open>Get\<close>, \<open>Put\<close>, prefix iteration and atomic write
  batches. The store is an association list read through \<open>map_of\<close>; iterators visit the
  keys of a range in increasing bytewise order, every key once. Whether an operation of
  the store fails is decided by the environment: the fault fields say which error, if any,
  a read, an iterator or the commit of a batch reports. A failed commit applies nothing.\<close>

type_synonym kvstore = "(bytes \<times> bytes) list"

record DB =
  contents :: kvstore
  get_fault :: "go_error option"
  iter_fault :: "go_error option"
  write_fault :: "go_error option"

datatype batch_op = BPut bytes bytes | BDelete bytes

definition db_Get :: "DB \<Rightarrow> bytes \<Rightarrow> bytes \<times> go_error option" where
  "db_Get db k =
     (case get_fault db of
        Some e \<Rightarrow> ([], Some e)
      | None \<Rightarrow> (case map_of (contents db) k of
                   None \<Rightarrow> ([], Some ErrNotFound)
                 | Some v \<Rightarrow> (v, None)))"

fun apply_batch_op :: "batch_op \<Rightarrow> kvstore \<Rightarrow> kvstore" where
  "apply_batch_op (BPut k v) c = AList.update k v c"
| "apply_batch_op (BDelete k) c = AList.delete k c"

definition db_Write :: "DB \<Rightarrow> batch_op list \<Rightarrow> DB \<times> go_error option" where
  "db_Write db wb =
     (case write_fault db of
        Some e \<Rightarrow> (db, Some e)
      | None \<Rightarrow> (db\<lparr>contents := fold apply_batch_op wb (contents db)\<rparr>, None))"

text \<open>The keys an iterator over \<open>kv.Range{start, limit}\<close> visits, in the order it visits
  them, and those of an iterator over \<open>kv.BytesPrefix(p)\<close>.\<close>

definition range_keys :: "kvstore \<Rightarrow> bytes \<Rightarrow> bytes \<Rightarrow> bytes list" where
  "range_keys c start limit = sort (remdups (filter (\<lambda>k. start \<le> k \<and> k < limit) (map fst c)))"

definition prefix_keys :: "kvstore \<Rightarrow> bytes \<Rightarrow> bytes list" where
  "prefix_keys c p = sort (remdups (filter (\<lambda>k. take (length p) k = p) (map fst c)))"

section \<open>Raft storage (src/server/replication/raftlog/raftlog.go)\<close>

text \<open>The messages of \<open>raftpb\<close> (etcd) as records; their generated \<open>Marshal\<close>,
  \<open>Unmarshal\<close> and \<open>Size\<close> methods are outside the repository and are parameters,
  collected in a record.\<close>

datatype EntryType = EntryNormal | EntryConfChange

record Entry =
  e_Type :: EntryType
  e_Term :: u64
  e_Index :: u64
  e_Data :: bytes

record HardState =
  hs_Term :: u64
  hs_Vote :: u64
  hs_Commit :: u64

record ConfState =
  cs_Nodes :: "u64 list"

definition zero_Entry :: Entry where
  "zero_Entry = \<lparr>e_Type = EntryNormal, e_Term = 0, e_Index = 0, e_Data = []\<rparr>"

definition zero_HardState :: HardState where
  "zero_HardState = \<lparr>hs_Term = 0, hs_Vote = 0, hs_Commit = 0\<rparr>"

definition zero_ConfState :: ConfState where
  "zero_ConfState = \<lparr>cs_Nodes = []\<rparr>"

record raftpb =
  HardState_Marshal :: "HardState \<Rightarrow> go_error + bytes"
  HardState_Unmarshal :: "HardState \<Rightarrow> bytes \<Rightarrow> HardState \<times> go_error option"
  ConfState_Unmarshal :: "ConfState \<Rightarrow> bytes \<Rightarrow> ConfState \<times> go_error option"
  Entry_Marshal :: "Entry \<Rightarrow> go_error + bytes"
  Entry_Unmarshal :: "bytes \<Rightarrow> go_error + Entry"
  Entry_Size :: "Entry \<Rightarrow> nat"

definition HARDSTATE_KEY :: bytes where "HARDSTATE_KEY = [0x48, 0x53]"
definition CONFSTATE_KEY :: bytes where "CONFSTATE_KEY = [0x43, 0x53]"
definition ENTRY_KEY_PREFIX :: bytes where "ENTRY_KEY_PREFIX = [0x45]"

text \<open>The field \<open>db\<close> of the Go struct is a handle on the shared store; the store itself
  is passed to and returned from every operation.\<close>

record raftStorage =
  hardStateKey :: bytes
  confStateKey :: bytes
  entryKeyPrefix :: bytes
  initialConf :: ConfState

definition openRaftStorage :: "bytes \<Rightarrow> ConfState \<Rightarrow> raftStorage" where
  "openRaftStorage prefix initialConf' =
     \<lparr>hardStateKey = ([] @ prefix) @ HARDSTATE_KEY,
      confStateKey = ([] @ prefix) @ CONFSTATE_KEY,
      entryKeyPrefix = ([] @ prefix) @ ENTRY_KEY_PREFIX,
      initialConf = initialConf'\<rparr>"

definition IsInitialized :: "raftStorage \<Rightarrow> DB \<Rightarrow> bool \<times> go_error option" where
  "IsInitialized s db =
     (case snd (db_Get db (hardStateKey s)) of
        Some ErrNotFound \<Rightarrow> (False, None)
      | None \<Rightarrow> (True, None)
      | Some err \<Rightarrow> (False, Some err))"

definition InitialState :: "raftpb \<Rightarrow> raftStorage \<Rightarrow> DB \<Rightarrow> HardState \<times> ConfState \<times> go_error option" where
  "InitialState pb s db =
     (let (confStateBytes, err) = db_Get db (confStateKey s) in
      if err \<noteq> Some ErrNotFound \<and> err \<noteq> None then (zero_HardState, zero_ConfState, err)
      else
        let confState = (if err = Some ErrNotFound then initialConf s else zero_ConfState);
            (confState, err) = ConfState_Unmarshal pb confState confStateBytes
        in if err \<noteq> None then (zero_HardState, confState, err)
           else
             let (hardStateBytes, err) = db_Get db (hardStateKey s) in
             if err = Some ErrNotFound then (zero_HardState, confState, None)
             else if err \<noteq> None then (zero_HardState, confState, err)
             else
               let (hardState, err) = HardState_Unmarshal pb zero_HardState hardStateBytes
               in (hardState, confState, err))"

text \<open>\<open>binary.BigEndian.PutUint64\<close> and \<open>binary.BigEndian.Uint64\<close>; the latter panics on
  a slice shorter than eight bytes.\<close>

definition PutUint64 :: "u64 \<Rightarrow> bytes" where
  "PutUint64 v =
     [ucast (drop_bit 56 v), ucast (drop_bit 48 v), ucast (drop_bit 40 v), ucast (drop_bit 32 v),
      ucast (drop_bit 24 v), ucast (drop_bit 16 v), ucast (drop_bit 8 v), ucast v]"

definition Uint64 :: "bytes \<Rightarrow> go_panic + u64" where
  "Uint64 b =
     (if length b < 8 then Inl IndexOutOfRange
      else Inr (ucast (b ! 7) OR push_bit 8 (ucast (b ! 6)) OR push_bit 16 (ucast (b ! 5))
                OR push_bit 24 (ucast (b ! 4)) OR push_bit 32 (ucast (b ! 3))
                OR push_bit 40 (ucast (b ! 2)) OR push_bit 48 (ucast (b ! 1))
                OR push_bit 56 (ucast (b ! 0))))"

definition getEntryKey :: "raftStorage \<Rightarrow> u64 \<Rightarrow> bytes" where
  "getEntryKey s nr = entryKeyPrefix s @ PutUint64 nr"

text \<open>The loop of \<open>Entries\<close> over the values the iterator yields. An entry that does not
  decode returns at once with the entries gathered so far; otherwise the loop ends with
  the iterator's error.\<close>

fun Entries_loop ::
  "raftpb \<Rightarrow> go_error option \<Rightarrow> u64 \<Rightarrow> bytes list \<Rightarrow> Entry list \<Rightarrow> u64 \<Rightarrow> Entry list \<times> go_error option" where
  "Entries_loop pb it_err maxSize [] entries sizeSoFar = (entries, it_err)"
| "Entries_loop pb it_err maxSize (v # vs) entries sizeSoFar =
     (case Entry_Unmarshal pb v of
        Inl err \<Rightarrow> (entries, Some err)
      | Inr entry \<Rightarrow>
          let sizeSoFar = sizeSoFar + word_of_nat (Entry_Size pb entry) in
          if sizeSoFar > maxSize \<and> length entries > 0 then (entries, it_err)
          else
            let entries = entries @ [entry] in
            if sizeSoFar \<ge> maxSize then (entries, it_err)
            else Entries_loop pb it_err maxSize vs entries sizeSoFar)"

definition Entries :: "raftpb \<Rightarrow> raftStorage \<Rightarrow> DB \<Rightarrow> u64 \<Rightarrow> u64 \<Rightarrow> u64 \<Rightarrow> Entry list \<times> go_error option" where
  "Entries pb s db lo hi maxSize =
     (let ks = range_keys (contents db) (getEntryKey s lo) (getEntryKey s hi)
      in Entries_loop pb (iter_fault db) maxSize
           (map (\<lambda>k. the (map_of (contents db) k)) ks) [] 0)"

definition Term_rs :: "raftpb \<Rightarrow> raftStorage \<Rightarrow> DB \<Rightarrow> u64 \<Rightarrow> go_panic + u64 \<times> go_error option" where
  "Term_rs pb s db i =
     (let (entries, err) = Entries pb s db i (i + 1) (- 1) in
      if err \<noteq> None then Inr (0, err)
      else if length entries \<noteq> 1 then Inl (Panic ''number of entries with index not 1'')
      else Inr (e_Term (entries ! 0), None))"

definition LastIndex :: "raftStorage \<Rightarrow> DB \<Rightarrow> go_panic + u64 \<times> go_error option" where
  "LastIndex s db =
     (let ks = prefix_keys (contents db) (entryKeyPrefix s) in
      if ks = [] then Inr (0, iter_fault db)
      else
        let indexPortion = drop (length (entryKeyPrefix s)) (last ks) in
        case Uint64 indexPortion of
          Inl p \<Rightarrow> Inl p
        | Inr i \<Rightarrow> Inr (i, iter_fault db))"

definition FirstIndex :: "raftStorage \<Rightarrow> u64 \<times> go_error option" where
  "FirstIndex s = (1, None)"

text \<open>The two loops of \<open>save\<close>. The counter \<open>ix\<close> of the first is a \<open>uint64\<close> and \<open>ix++\<close>
  wraps around, so the loop does not end when \<open>lastIndex\<close> is the largest \<open>uint64\<close>:
  not returning is the value \<open>None\<close>.\<close>

partial_function (option) save_delete_loop ::
  "raftStorage \<Rightarrow> u64 \<Rightarrow> u64 \<Rightarrow> batch_op list \<Rightarrow> batch_op list option" where
  "save_delete_loop s ix lastIndex wb =
     (if ix \<le> lastIndex
      then save_delete_loop s (ix + 1) lastIndex (wb @ [BDelete (getEntryKey s ix)])
      else Some wb)"

fun save_append_loop :: "raftpb \<Rightarrow> raftStorage \<Rightarrow> Entry list \<Rightarrow> batch_op list \<Rightarrow> go_error + batch_op list" where
  "save_append_loop pb s [] wb = Inr wb"
| "save_append_loop pb s (entry # es) wb =
     (case Entry_Marshal pb entry of
        Inl err \<Rightarrow> Inl err
      | Inr entryBytes \<Rightarrow> save_append_loop pb s es (wb @ [BPut (getEntryKey s (e_Index entry)) entryBytes]))"

text \<open>\<open>save\<close>: \<open>None\<close> when it does not return, \<open>Some (Inl p)\<close> when it panics (nothing has
  been written then), otherwise the returned error and the store.\<close>

definition save ::
  "raftpb \<Rightarrow> raftStorage \<Rightarrow> DB \<Rightarrow> HardState \<Rightarrow> Entry list \<Rightarrow> (go_panic + go_error option \<times> DB) option" where
  "save pb s db state entries =
     (let wb = [] in
      case HardState_Marshal pb state of
        Inl err \<Rightarrow> Some (Inr (Some err, db))
      | Inr stateBytes \<Rightarrow>
          let wb = wb @ [BPut (hardStateKey s) stateBytes] in
          if length entries > 0 then
            (case LastIndex s db of
               Inl p \<Rightarrow> Some (Inl p)
             | Inr (lastIndex, Some err) \<Rightarrow> Some (Inr (Some err, db))
             | Inr (lastIndex, None) \<Rightarrow>
                 if e_Index (entries ! 0) > lastIndex + 1
                 then Some (Inl (Panic ''missing log entries''))
                 else
                   (case save_delete_loop s (e_Index (entries ! 0)) lastIndex wb of
                      None \<Rightarrow> None
                    | Some wb \<Rightarrow>
                        (case save_append_loop pb s entries wb of
                           Inl err \<Rightarrow> Some (Inr (Some err, db))
                         | Inr wb \<Rightarrow> Some (Inr (prod.swap (db_Write db wb))))))
          else Some (Inr (prod.swap (db_Write db wb))))"

section \<open>The replicator's Start\<close>

text \<open>The consensus engine (etcd's \<open>raft\<close>) is outside the repository. A node is
  represented by the call that made it, with the arguments it was given: \<open>raft.StartNode\<close>
  with a configuration and the peers, or \<open>raft.RestartNode\<close> with a configuration. Neither
  call writes to the store.\<close>

record raft_Config =
  cfg_ID :: u64
  cfg_ElectionTick :: int
  cfg_HeartbeatTick :: int
  cfg_Storage :: "raftStorage option"
  cfg_Applied :: u64
  cfg_MaxSizePerMsg :: u64
  cfg_MaxInflightMsgs :: int

record raft_Peer =
  peer_ID :: u64
  peer_Context :: bytes

datatype raft_Node = StartNode raft_Config "raft_Peer list" | RestartNode raft_Config

text \<open>The fields of \<open>raftLog\<close> that \<open>Start\<close> reads or writes; \<open>serving\<close> and \<open>running\<close>
  record that the goroutines \<open>grpcServer.Serve\<close> and \<open>run\<close> have been started.\<close>

record raftLog =
  config :: raft_Config
  initialNodes :: "raft_Peer list"
  storage :: raftStorage
  node :: "raft_Node option"
  serving :: bool
  running :: bool

text \<open>\<open>Start\<close>: \<open>None\<close> when it does not return, \<open>Some (Inl p)\<close> when it panics, otherwise
  the returned error, the replicator and the store. The error returned by \<open>save\<close> is
  dropped, as in the source.\<close>

definition Start ::
  "raftpb \<Rightarrow> raftLog \<Rightarrow> DB \<Rightarrow> u64 \<Rightarrow> (go_panic + go_error option \<times> raftLog \<times> DB) option" where
  "Start pb l db lo =
     (let l = l\<lparr>config := (config l)\<lparr>cfg_Storage := Some (storage l)\<rparr>\<rparr>;
          (inited, err) = IsInitialized (storage l) db
      in if err \<noteq> None then Some (Inr (err, l, db))
         else if inited then
           let l = l\<lparr>config := (config l)\<lparr>cfg_Applied := lo\<rparr>\<rparr>;
               l = l\<lparr>node := Some (RestartNode (config l))\<rparr>
           in Some (Inr (None, l\<lparr>serving := True, running := True\<rparr>, db))
         else if lo \<noteq> 0
         then Some (Inl (Panic ''storage uninitialized but state machine not fresh''))
         else
           let (hardState, confState, err) = InitialState pb (storage l) db
           in if err \<noteq> None then Some (Inr (err, l, db))
              else
                (case save pb (storage l) db hardState (replicate 1 zero_Entry) of
                   None \<Rightarrow> None
                 | Some (Inl p) \<Rightarrow> Some (Inl p)
                 | Some (Inr (save_err, db')) \<Rightarrow>
                     let l = l\<lparr>node := Some (StartNode (config l) (initialNodes l))\<rparr>
                     in Some (Inr (None, l\<lparr>serving := True, running := True\<rparr>, db'))))"

section \<open>The VRF (src/vrf/vrf_ed25519/vrf_ed25519.go)\<close>

text \<open>Package \<open>edwards25519\<close> (group and field arithmetic), the hash functions and
  \<open>ed25519.GenerateKey\<close> are outside the sources at hand. The structs of the package
  are records over the type \<open>'f\<close> of \<open>FieldElement\<close>; \<open>'q\<close> stands for
  \<open>ProjectiveGroupElement\<close>, which the VRF only passes on. The functions of the package
  that the VRF calls are parameters, collected in a record. \<open>FromBytes\<close> returns its
  boolean result and the element it has filled in; \<open>FeOfLimbs\<close> is the field element
  that a literal \<open>FieldElement{...}\<close> of ten limbs denotes; byte arrays are lists of
  bytes.\<close>

record 'f ExtendedGroupElement =
  geX :: 'f
  geY :: 'f
  geZ :: 'f
  geT :: 'f

record 'f CompletedGroupElement =
  cgX :: 'f
  cgY :: 'f
  cgZ :: 'f
  cgT :: 'f


record ('q, 'f) edwards25519 =
  FromBytes :: "bytes \<Rightarrow> bool \<times> 'f ExtendedGroupElement"
  ToBytes :: "'f ExtendedGroupElement \<Rightarrow> bytes"
  ProjToBytes :: "'q \<Rightarrow> bytes"
  GeDoubleScalarMultVartime :: "bytes \<Rightarrow> 'f ExtendedGroupElement \<Rightarrow> bytes \<Rightarrow> 'q"
  GeScalarMultBase :: "bytes \<Rightarrow> 'f ExtendedGroupElement"
  ToExtended :: "'f CompletedGroupElement \<Rightarrow> 'f ExtendedGroupElement"
  FeOne :: 'f
  FeOfLimbs :: "int list \<Rightarrow> 'f"
  FeToBytes :: "'f \<Rightarrow> bytes"
  FeAdd :: "'f \<Rightarrow> 'f \<Rightarrow> 'f"
  FeSub :: "'f \<Rightarrow> 'f \<Rightarrow> 'f"
  FeMul :: "'f \<Rightarrow> 'f \<Rightarrow> 'f"
  SHA256 :: "bytes \<Rightarrow> bytes"
  SHA512 :: "bytes \<Rightarrow> bytes"

datatype failure = Panicked go_panic | Failed go_error

definition bind_result :: "'e + 'a \<Rightarrow> ('a \<Rightarrow> 'e + 'b) \<Rightarrow> 'e + 'b" where
  "bind_result r f = (case r of Inl e \<Rightarrow> Inl e | Inr x \<Rightarrow> f x)"

definition limit :: nat where "limit = 10000"
definition N2 :: nat where "N2 = 32"
definition N :: nat where "N = N2 div 2"

definition q :: int where
  "q = 0x1000000000000000000000000000000014def9dea2f79cd65812631a5cf5d3ed"

text \<open>\<open>big.Int\<close> values are integers. \<open>Bytes\<close> is the big-endian encoding of the absolute
  value without leading zeros, \<open>SetBytes\<close> its inverse.\<close>

fun nat_bytes :: "nat \<Rightarrow> bytes" where
  "nat_bytes n = (if n = 0 then [] else nat_bytes (n div 256) @ [word_of_nat (n mod 256)])"

declare nat_bytes.simps [simp del]

definition Int_Bytes :: "int \<Rightarrow> bytes" where
  "Int_Bytes b = nat_bytes (nat \<bar>b\<bar>)"

definition I2OSP :: "int \<Rightarrow> nat \<Rightarrow> bytes" where
  "I2OSP b n =
     (let os = Int_Bytes b in
      if n > length os then replicate (n - length os) 0 @ os else take n os)"

definition OS2IP :: "bytes \<Rightarrow> int" where
  "OS2IP os = int (foldl (\<lambda>a b. a * 256 + unat b) 0 os)"

text \<open>\<open>F2IP\<close> and \<open>IP2F\<close>: between a 32-byte little-endian scalar and an integer.\<close>

definition F2IP :: "bytes \<Rightarrow> int" where
  "F2IP f = OS2IP (map (\<lambda>j. f ! (32 - j - 1)) [0..<32])"

definition IP2F :: "int \<Rightarrow> bytes" where
  "IP2F b = (let os = Int_Bytes b in take 32 (rev os @ replicate 32 0))"

text \<open>\<open>S2OS\<close> reads \<open>s[31]\<close> and panics on a shorter slice.\<close>

definition S2OS :: "bytes \<Rightarrow> failure + bytes" where
  "S2OS s =
     (if length s < 32 then Inl (Panicked IndexOutOfRange)
      else let sign = drop_bit 7 (s ! 31) in Inr ([sign + 2] @ s))"

definition ECP2OS :: "('q, 'f) edwards25519 \<Rightarrow> 'f ExtendedGroupElement \<Rightarrow> failure + bytes" where
  "ECP2OS E P = S2OS (ToBytes E P)"


definition GeScalarMult :: "('q, 'f) edwards25519 \<Rightarrow> 'f ExtendedGroupElement \<Rightarrow> bytes \<Rightarrow> 'f ExtendedGroupElement" where
  "GeScalarMult E h a =
     (let pg = GeDoubleScalarMultVartime E a h (replicate 32 0);
          t = ProjToBytes E pg
      in snd (FromBytes E t))"

definition G :: "('q, 'f) edwards25519 \<Rightarrow> 'f ExtendedGroupElement" where
  "G E = GeScalarMultBase E (FeToBytes E (FeOne E))"

definition OS2ECP :: "('q, 'f) edwards25519 \<Rightarrow> bytes \<Rightarrow> byte \<Rightarrow> 'f ExtendedGroupElement option" where
  "OS2ECP E os sign =
     (let buf = fst (go_copy (replicate 32 0) os);
          buf = buf[31 := push_bit 7 sign OR (buf ! 31 AND 0x7f)];
          (ok, P) = FromBytes E buf
      in if \<not> ok then None
         else
           let inf = GeScalarMult E P (IP2F q);
               t = ToBytes E inf
           in if t \<noteq> 1 # replicate 31 0 then None else Some P)"

text \<open>The loop of \<open>ECVRF_hash_to_curve\<close>, from the counter \<open>i\<close> on; the panic after the
  loop is a result.\<close>

function hash_to_curve_from ::
  "('q, 'f) edwards25519 \<Rightarrow> bytes \<Rightarrow> bytes \<Rightarrow> nat \<Rightarrow> failure + 'f ExtendedGroupElement" where
  "hash_to_curve_from E m pk i =
     (if i < limit then
        let ctr = I2OSP (int i) 4;
            h = SHA256 E (m @ pk @ ctr)
        in case OS2ECP E h 0 of
             Some P \<Rightarrow> Inr P
           | None \<Rightarrow>
               (case OS2ECP E h 1 of
                  Some P \<Rightarrow> Inr P
                | None \<Rightarrow> hash_to_curve_from E m pk (i + 1))
      else Inl (Panicked (Panic ''ECVRF_hash_to_curve: couldn't make a point on curve'')))"
  by pat_completeness auto
termination
  by (relation "measure (\<lambda>(E, m, pk, i). limit - i)") auto

declare hash_to_curve_from.simps [simp del]

definition ECVRF_hash_to_curve :: "('q, 'f) edwards25519 \<Rightarrow> bytes \<Rightarrow> bytes \<Rightarrow> failure + 'f ExtendedGroupElement" where
  "ECVRF_hash_to_curve E m pk = hash_to_curve_from E m pk 0"

definition ECVRF_hash_points :: "('q, 'f) edwards25519 \<Rightarrow> bytes list \<Rightarrow> failure + int" where
  "ECVRF_hash_points E ps =
     (let v = SHA256 E (concat ps) in
      if length v < N then Inl (Panicked IndexOutOfRange) else Inr (OS2IP (take N v)))"

definition expandSecret :: "('q, 'f) edwards25519 \<Rightarrow> bytes \<Rightarrow> failure + bytes" where
  "expandSecret E sk =
     (if length sk < 32 then Inl (Panicked IndexOutOfRange)
      else
        let digest = SHA512 E (take 32 sk);
            digest = digest[0 := digest ! 0 AND 248];
            digest = digest[31 := digest ! 31 AND 127];
            digest = digest[31 := digest ! 31 OR 64];
            h = fst (go_copy (replicate 32 0) digest)
        in Inr h)"

text \<open>\<open>ECVRF_prove\<close>. The outcome of \<open>ed25519.GenerateKey(nil)\<close>, which reads the system's
  randomness, is the argument \<open>rnd\<close>: an error, or the public and the private key.\<close>

definition ECVRF_prove ::
  "('q, 'f) edwards25519 \<Rightarrow> bytes \<Rightarrow> bytes \<Rightarrow> bytes \<Rightarrow> go_error + bytes \<times> bytes \<Rightarrow> failure + bytes" where
  "ECVRF_prove E pk sk m rnd =
     bind_result (expandSecret E sk) (\<lambda>x.
     bind_result (ECVRF_hash_to_curve E m pk) (\<lambda>h.
     bind_result (ECP2OS E (GeScalarMult E h x)) (\<lambda>r.
     case rnd of
       Inl err \<Rightarrow> Inl (Failed err)
     | Inr (kp, ks) \<Rightarrow>
         bind_result (expandSecret E ks) (\<lambda>k.
         bind_result (ECP2OS E (G E)) (\<lambda>p1.
         bind_result (ECP2OS E h) (\<lambda>p2.
         bind_result (S2OS pk) (\<lambda>p3.
         bind_result (S2OS kp) (\<lambda>p5.
         bind_result (ECP2OS E (GeScalarMult E h k)) (\<lambda>p6.
         bind_result (ECVRF_hash_points E [p1, p2, p3, r, p5, p6]) (\<lambda>c.
         let s = (F2IP k - c * F2IP x) mod q
         in Inr (r @ I2OSP c N @ I2OSP s N2)))))))))))"

definition ECVRF_proof2hash :: "bytes \<Rightarrow> failure + bytes" where
  "ECVRF_proof2hash pf =
     (if length pf < N2 + 1 then Inl (Panicked IndexOutOfRange) else Inr (take N2 (drop 1 pf)))"


text \<open>The constant \<open>d2\<close>, \<open>ToCached\<close> and \<open>GeAdd\<close>, copied into the VRF's file from
  the package.\<close>

definition d2 :: "('q, 'f) edwards25519 \<Rightarrow> 'f" where
  "d2 E = FeOfLimbs E [-21827239, -5839606, -30745221, 13898782, 229458, 15978800, -12551817,
     -6495438, 29715968, 9444199]"




section \<open>Auxiliary definitions for the statements and proofs\<close>

text \<open>The \<open>k\<close> low-order base-256 digits of a number, most significant first.\<close>

fun be_nat :: "nat \<Rightarrow> nat \<Rightarrow> bytes" where
  "be_nat 0 n = []"
| "be_nat (Suc k) n = be_nat k (n div 256) @ [of_nat (n mod 256)]"

text \<open>The indices \<open>a, a + 1, \<dots>, b\<close> (none when \<open>b < a\<close>).\<close>

definition index_range :: "u64 \<Rightarrow> u64 \<Rightarrow> u64 list" where
  "index_range a b = map word_of_nat [unat a..<Suc (unat b)]"

text \<open>The effect of one operation of a batch on the store read as a map.\<close>

fun apply_op_map :: "batch_op \<Rightarrow> (bytes \<rightharpoonup> bytes) \<Rightarrow> (bytes \<rightharpoonup> bytes)" where
  "apply_op_map (BPut k v) m = m(k \<mapsto> v)"
| "apply_op_map (BDelete k) m = m(k := None)"

text \<open>Serialising a list of entries in order, stopping at the first error.\<close>

fun marshal_entries :: "raftpb \<Rightarrow> Entry list \<Rightarrow> go_error + bytes list" where
  "marshal_entries pb [] = Inr []"
| "marshal_entries pb (e # es) =
     (case Entry_Marshal pb e of
        Inl err \<Rightarrow> Inl err
      | Inr b \<Rightarrow> (case marshal_entries pb es of Inl err \<Rightarrow> Inl err | Inr bs \<Rightarrow> Inr (b # bs)))"

text \<open>The lookup of a key in the store.\<close>

definition lookup :: "DB \<Rightarrow> bytes \<Rightarrow> bytes option" where
  "lookup db k = map_of (contents db) k"

text \<open>The batch that \<open>save\<close> is described to commit for a serialised HardState \<open>sb\<close>, the
  last index \<open>li\<close> and the serialised entries \<open>bs\<close>.\<close>

definition save_batch :: "raftStorage \<Rightarrow> bytes \<Rightarrow> u64 \<Rightarrow> Entry list \<Rightarrow> bytes list \<Rightarrow> batch_op list" where
  "save_batch s sb li entries bs =
     BPut (hardStateKey s) sb #
     (if entries = [] then []
      else map (\<lambda>i. BDelete (getEntryKey s i)) (index_range (e_Index (hd entries)) li) @
           map2 BPut (map (\<lambda>e. getEntryKey s (e_Index e)) entries) bs)"

text \<open>A small codec and a store without faults, for the concrete instances below: a
  HardState is serialised as three bytes, an entry as the low bytes of its term and index
  followed by its data.\<close>

definition example_pb :: raftpb where
  "example_pb =
     \<lparr>HardState_Marshal = (\<lambda>h. Inr [ucast (hs_Term h), ucast (hs_Vote h), ucast (hs_Commit h)]),
      HardState_Unmarshal = (\<lambda>h bs. case bs of
           [t, v, c] \<Rightarrow> (\<lparr>hs_Term = ucast t, hs_Vote = ucast v, hs_Commit = ucast c\<rparr>, None)
         | _ \<Rightarrow> (h, Some (IOError 1))),
      ConfState_Unmarshal = (\<lambda>c bs. if bs = [] then (c, None) else (\<lparr>cs_Nodes = map ucast bs\<rparr>, None)),
      Entry_Marshal = (\<lambda>e. Inr (ucast (e_Term e) # ucast (e_Index e) # e_Data e)),
      Entry_Unmarshal = (\<lambda>bs. case bs of
           t # i # d \<Rightarrow> Inr \<lparr>e_Type = EntryNormal, e_Term = ucast t, e_Index = ucast i, e_Data = d\<rparr>
         | _ \<Rightarrow> Inl (IOError 2)),
      Entry_Size = (\<lambda>e. 2 + length (e_Data e))\<rparr>"

definition example_db :: "kvstore \<Rightarrow> DB" where
  "example_db c = \<lparr>contents = c, get_fault = None, iter_fault = None, write_fault = None\<rparr>"

definition s0 :: raftStorage where
  "s0 = openRaftStorage [] zero_ConfState"

text \<open>A replicator that has been opened on the storage \<open>s0\<close> for three peers, not yet
  started.\<close>

definition example_log :: raftLog where
  "example_log =
     \<lparr>config = \<lparr>cfg_ID = 1, cfg_ElectionTick = 10, cfg_HeartbeatTick = 1, cfg_Storage = None,
                cfg_Applied = 0, cfg_MaxSizePerMsg = 4096, cfg_MaxInflightMsgs = 256\<rparr>,
      initialNodes = [\<lparr>peer_ID = 1, peer_Context = []\<rparr>, \<lparr>peer_ID = 2, peer_Context = []\<rparr>,
                      \<lparr>peer_ID = 3, peer_Context = []\<rparr>],
      storage = s0, node = None, serving = False, running = False\<rparr>"

text \<open>The indices in \<open>[lo, hi)\<close> at which the store holds a log entry, in increasing order;
  the entries stored there, decoded, in that order; and the total serialised size of a
  list of entries.\<close>

definition stored_indices :: "raftStorage \<Rightarrow> DB \<Rightarrow> u64 \<Rightarrow> u64 \<Rightarrow> u64 list" where
  "stored_indices s db lo hi =
     sorted_list_of_set {i. lo \<le> i \<and> i < hi \<and> lookup db (getEntryKey s i) \<noteq> None}"

definition stored_entries :: "raftpb \<Rightarrow> raftStorage \<Rightarrow> DB \<Rightarrow> u64 \<Rightarrow> u64 \<Rightarrow> Entry list" where
  "stored_entries pb s db lo hi =
     map (\<lambda>i. projr (Entry_Unmarshal pb (the (lookup db (getEntryKey s i)))))
       (stored_indices s db lo hi)"

definition total_size :: "raftpb \<Rightarrow> Entry list \<Rightarrow> nat" where
  "total_size pb es = sum_list (map (Entry_Size pb) es)"

section \<open>The VRF: the specification's reading of hash-to-curve, and an example curve\<close>

text \<open>The description of \<open>ECVRF_hash_to_curve\<close> in the specification, in its words: the
  digest of the \<open>i\<close>-th step is SHA-256 of \<open>m\<close>, \<open>pk\<close> and the four-byte big-endian counter;
  a digest is decoded with sign 0 and then with sign 1; the result is the first point, in
  the order of the counters below 10000, that decodes, and a fatal failure if there is
  none.\<close>

definition counter_digest :: "('q, 'f) edwards25519 \<Rightarrow> bytes \<Rightarrow> bytes \<Rightarrow> nat \<Rightarrow> bytes" where
  "counter_digest E m pk i = SHA256 E (m @ pk @ be_nat 4 i)"

definition first_decoding :: "('q, 'f) edwards25519 \<Rightarrow> bytes \<Rightarrow> 'f ExtendedGroupElement option" where
  "first_decoding E h = (case OS2ECP E h 0 of Some P \<Rightarrow> Some P | None \<Rightarrow> OS2ECP E h 1)"


text \<open>The number that a little-endian byte string denotes, and the multiple \<open>n \<cdot> P\<close> in a
  group written additively.\<close>

fun le_nat :: "bytes \<Rightarrow> nat" where
  "le_nat [] = 0"
| "le_nat (b # bs) = unat b + 256 * le_nat bs"

definition smul :: "nat \<Rightarrow> 'g::ab_group_add \<Rightarrow> 'g" where
  "smul n P = ((+) P ^^ n) 0"

text \<open>Modelled from the spec: the package \<open>edwards25519\<close> is a directory of the
  repository that is not among the sources at hand; the specification describes it as
  group-element forms and field arithmetic for the twisted Edwards curve, base-point and
  double-scalar multiplication \<open>a \<cdot> P + b \<cdot> B\<close>, the 32-byte point encoding, and the constant
  \<open>d2 = 2 \<cdot> d\<close>. Its contract, as far as the VRF relies on it, is stated over a group \<open>'g\<close>
  of points with affine coordinates \<open>aff\<close>, encoding \<open>enc\<close>, base point \<open>B\<close> of order
  dividing \<open>q\<close> and curve constant \<open>d\<close>. An extended element \<open>(X, Y, Z, T)\<close> represents the
  point with \<open>x = X / Z\<close>, \<open>y = Y / Z\<close>, \<open>x \<cdot> y = T / Z\<close>. The clauses: the field functions are
  the operations of the field \<open>'f\<close>, of characteristic other than 2; the literal \<open>d2\<close> is
  \<open>2 \<cdot> d\<close>; the addition of the group is the (complete) addition law of the curve
  \<open>- x\<^sup>2 + y\<^sup>2 = 1 + d \<cdot> x\<^sup>2 \<cdot> y\<^sup>2\<close>; \<open>ToExtended\<close> is the conversion \<open>(X \<cdot> T, Y \<cdot> Z, Z \<cdot> T, X \<cdot> Y)\<close>;
  \<open>ToBytes\<close> encodes the point represented; \<open>FromBytes\<close> decodes an encoding to a
  representation of its point and accepts representations of points only;
  \<open>GeDoubleScalarMultVartime a A b\<close> is \<open>a \<cdot> A + b \<cdot> B\<close> and \<open>GeScalarMultBase a\<close> is
  \<open>a \<cdot> B\<close> (for \<open>a[31] \<le> 127\<close>), scalars being little-endian; \<open>FeToBytes\<close> of one is the byte
  1 and 31 zero bytes; encodings have 32 bytes, are injective, and the neutral element is
  encoded as the byte 1 and 31 zero bytes; SHA-256 yields 32 and SHA-512 yields 64
  bytes.\<close>

definition represents ::
  "('g \<Rightarrow> 'f \<times> 'f) \<Rightarrow> 'f::field ExtendedGroupElement \<Rightarrow> 'g \<Rightarrow> bool" where
  "represents aff e P \<longleftrightarrow>
     geZ e \<noteq> 0 \<and> geX e = fst (aff P) * geZ e \<and> geY e = snd (aff P) * geZ e \<and>
     geT e * geZ e = geX e * geY e"

definition edwards25519_contract ::
  "('q, 'f::field) edwards25519 \<Rightarrow> ('g::ab_group_add \<Rightarrow> 'f \<times> 'f) \<Rightarrow> ('g \<Rightarrow> bytes) \<Rightarrow> 'g \<Rightarrow> 'f \<Rightarrow> bool" where
  "edwards25519_contract E aff enc B d \<longleftrightarrow>
     (2 :: 'f) \<noteq> 0 \<and>
     FeAdd E = (+) \<and> FeSub E = (-) \<and> FeMul E = (*) \<and>
     d2 E = 2 * d \<and>
     (\<forall>P Q. 1 + d * fst (aff P) * fst (aff Q) * snd (aff P) * snd (aff Q) \<noteq> 0 \<and>
            1 - d * fst (aff P) * fst (aff Q) * snd (aff P) * snd (aff Q) \<noteq> 0 \<and>
            aff (P + Q) =
              ((fst (aff P) * snd (aff Q) + snd (aff P) * fst (aff Q)) /
                 (1 + d * fst (aff P) * fst (aff Q) * snd (aff P) * snd (aff Q)),
               (snd (aff P) * snd (aff Q) + fst (aff P) * fst (aff Q)) /
                 (1 - d * fst (aff P) * fst (aff Q) * snd (aff P) * snd (aff Q)))) \<and>
     (\<forall>c. ToExtended E c =
        \<lparr>geX = cgX c * cgT c, geY = cgY c * cgZ c, geZ = cgZ c * cgT c, geT = cgX c * cgY c\<rparr>) \<and>
     (\<forall>e P. represents aff e P \<longrightarrow> ToBytes E e = enc P) \<and>
     (\<forall>P. fst (FromBytes E (enc P)) \<and> represents aff (snd (FromBytes E (enc P))) P) \<and>
     (\<forall>bs. fst (FromBytes E bs) \<longrightarrow> (\<exists>P. represents aff (snd (FromBytes E bs)) P)) \<and>
     (\<forall>a e b P. represents aff e P \<and> length a = 32 \<and> length b = 32 \<longrightarrow>
        ProjToBytes E (GeDoubleScalarMultVartime E a e b)
          = enc (smul (le_nat a) P + smul (le_nat b) B)) \<and>
     (\<forall>a. length a = 32 \<and> a ! 31 \<le> 127 \<longrightarrow>
        represents aff (GeScalarMultBase E a) (smul (le_nat a) B)) \<and>
     FeToBytes E (FeOne E) = 1 # replicate 31 0 \<and>
     (\<forall>P. length (enc P) = 32) \<and>
     (\<forall>P Q. enc P = enc Q \<longrightarrow> P = Q) \<and>
     enc 0 = 1 # replicate 31 0 \<and>
     smul (nat q) B = 0 \<and>
     (\<forall>bs. length (SHA256 E bs) = 32) \<and>
     (\<forall>bs. length (SHA512 E bs) = 64)"



text \<open>An example of the package's functions, for running the VRF: the subgroup of a twisted
  Edwards curve over the rationals that has the neutral element \<open>(0, 1)\<close> only. A byte
  string decodes when its first byte is 1, as the encoding of the neutral element has it;
  the hash functions repeat a byte of their input.\<close>

definition ge_identity :: "rat ExtendedGroupElement" where
  "ge_identity = \<lparr>geX = 0, geY = 1, geZ = 1, geT = 0\<rparr>"

definition one_point_curve :: "(unit, rat) edwards25519" where
  "one_point_curve =
     \<lparr>FromBytes = (\<lambda>bs. (bs ! 0 = 1, ge_identity)),
      ToBytes = (\<lambda>P. 1 # replicate 31 0),
      ProjToBytes = (\<lambda>P. 1 # replicate 31 0),
      GeDoubleScalarMultVartime = (\<lambda>a P b. ()),
      GeScalarMultBase = (\<lambda>a. ge_identity),
      ToExtended = (\<lambda>c. \<lparr>geX = cgX c * cgT c, geY = cgY c * cgZ c, geZ = cgZ c * cgT c,
                           geT = cgX c * cgY c\<rparr>),
      FeOne = 1,
      FeOfLimbs = (\<lambda>ls. 0),
      FeToBytes = (\<lambda>f. if f = 1 then 1 # replicate 31 0 else replicate 32 0),
      FeAdd = (+),
      FeSub = (-),
      FeMul = (*),
      SHA256 = (\<lambda>bs. replicate 32 (last bs)),
      SHA512 = (\<lambda>bs. replicate 64 (hd bs))\<rparr>"

definition pk0 :: bytes where "pk0 = 1 # replicate 31 0"
definition sk0 :: bytes where "sk0 = replicate 32 5 @ pk0"
definition ks1 :: bytes where "ks1 = replicate 32 9 @ pk0"
definition ks2 :: bytes where "ks2 = replicate 32 17 @ pk0"

section \<open>Big-endian keys\<close>

lemma length_be_nat: "length (be_nat k n) = k"
  by (induction k arbitrary: n) auto

lemma lex_snoc_less:
  "length xs = length ys \<Longrightarrow> (xs @ [x] < ys @ [y]) \<longleftrightarrow> xs < ys \<or> (xs = ys \<and> x < (y::'a::linorder))"
  by (induction xs ys rule: list_induct2) auto

lemma byte_of_nat_less: "a < 256 \<Longrightarrow> b < 256 \<Longrightarrow> (of_nat a :: byte) < of_nat b \<longleftrightarrow> a < b"
  by (simp add: word_less_nat_alt unat_of_nat take_bit_nat_eq_self)

lemma byte_of_nat_eq: "a < 256 \<Longrightarrow> b < 256 \<Longrightarrow> (of_nat a :: byte) = of_nat b \<longleftrightarrow> a = b"
  by (metis byte_of_nat_less less_irrefl linorder_neqE_nat)

lemma lex_pair_less:
  "ra < (256::nat) \<Longrightarrow> rb < 256 \<Longrightarrow>
     (qa * 256 + ra < qb * 256 + rb) \<longleftrightarrow> qa < qb \<or> (qa = qb \<and> ra < rb)"
  by arith

lemma divmod_less:
  "(a::nat) < b \<longleftrightarrow> a div 256 < b div 256 \<or> (a div 256 = b div 256 \<and> a mod 256 < b mod 256)"
  using lex_pair_less [of "a mod 256" "b mod 256" "a div 256" "b div 256"]
  by (simp only: div_mult_mod_eq mod_less_divisor zero_less_numeral)

lemma divmod_eq: "(a::nat) = b \<longleftrightarrow> (a div 256 = b div 256 \<and> a mod 256 = b mod 256)"
  by (metis div_mult_mod_eq)

lemma be_nat_eq: "a < 256 ^ k \<Longrightarrow> b < 256 ^ k \<Longrightarrow> be_nat k a = be_nat k b \<longleftrightarrow> a = b"
proof (induction k arbitrary: a b)
  case 0 then show ?case by simp
next
  case (Suc k)
  then have "a div 256 < 256 ^ k" "b div 256 < 256 ^ k"
    by (simp_all add: less_mult_imp_div_less mult.commute)
  then have "be_nat k (a div 256) = be_nat k (b div 256) \<longleftrightarrow> a div 256 = b div 256"
    by (rule Suc.IH)
  then show ?case
    by (simp add: byte_of_nat_eq length_be_nat) (metis divmod_eq)
qed

lemma be_nat_less: "a < 256 ^ k \<Longrightarrow> b < 256 ^ k \<Longrightarrow> be_nat k a < be_nat k b \<longleftrightarrow> a < b"
proof (induction k arbitrary: a b)
  case 0 then show ?case by simp
next
  case (Suc k)
  then have d: "a div 256 < 256 ^ k" "b div 256 < 256 ^ k"
    by (simp_all add: less_mult_imp_div_less mult.commute)
  have "be_nat (Suc k) a < be_nat (Suc k) b \<longleftrightarrow>
        be_nat k (a div 256) < be_nat k (b div 256) \<or>
        (be_nat k (a div 256) = be_nat k (b div 256) \<and> a mod 256 < b mod 256)"
    by (simp add: lex_snoc_less length_be_nat byte_of_nat_less)
  also have "\<dots> \<longleftrightarrow> a div 256 < b div 256 \<or> (a div 256 = b div 256 \<and> a mod 256 < b mod 256)"
    using Suc.IH [OF d] be_nat_eq [OF d] by simp
  also have "\<dots> \<longleftrightarrow> a < b"
    by (rule divmod_less [symmetric])
  finally show ?case .
qed

lemma byte_at: "(ucast (drop_bit n (v::u64)) :: byte) = of_nat (unat v div 2 ^ n mod 256)"
proof -
  have "(ucast (drop_bit n v) :: byte) = of_nat (unat (drop_bit n v))"
    by (simp only: of_nat_unat)
  also have "\<dots> = of_nat (unat v div 2 ^ n)"
    by (simp only: unat_drop_bit_eq) (simp only: drop_bit_eq_div)
  also have "\<dots> = (of_nat (unat v div 2 ^ n mod 256) :: byte)"
    by (simp add: word_of_nat_eq_iff take_bit_eq_mod)
  finally show ?thesis .
qed

lemma be_nat_8:
  "be_nat 8 n = [of_nat (n div 2 ^ 56 mod 256), of_nat (n div 2 ^ 48 mod 256),
      of_nat (n div 2 ^ 40 mod 256), of_nat (n div 2 ^ 32 mod 256), of_nat (n div 2 ^ 24 mod 256),
      of_nat (n div 2 ^ 16 mod 256), of_nat (n div 2 ^ 8 mod 256), of_nat (n div 2 ^ 0 mod 256)]"
proof -
  have 8: "(8::nat) = Suc (Suc (Suc (Suc (Suc (Suc (Suc (Suc 0)))))))"
    by simp
  show ?thesis
    unfolding 8 be_nat.simps by (simp add: div_mult2_eq [symmetric])
qed

lemma PutUint64_be_nat: "PutUint64 v = be_nat 8 (unat v)"
proof -
  have b0: "(ucast v :: byte) = of_nat (unat v div 2 ^ 0 mod 256)"
    using byte_at [of 0 v] by simp
  show ?thesis
    unfolding PutUint64_def be_nat_8 byte_at b0 by (rule refl)
qed

lemma unat_u64_bound: "unat (a :: u64) < 256 ^ 8"
  using unsigned_less [of a, where 'a = nat] by simp

lemma PutUint64_less: "PutUint64 a < PutUint64 b \<longleftrightarrow> a < b"
  using be_nat_less [OF unat_u64_bound unat_u64_bound, of a b]
  by (simp only: PutUint64_be_nat word_less_nat_alt)

lemma PutUint64_inj: "PutUint64 a = PutUint64 b \<longleftrightarrow> a = b"
  using be_nat_eq [OF unat_u64_bound unat_u64_bound, of a b]
  by (simp only: PutUint64_be_nat word_unat_eq_iff)

lemma lex_append_less: "(p @ xs < p @ ys) \<longleftrightarrow> xs < (ys :: 'a::linorder list)"
  by (induction p) auto

lemma length_PutUint64: "length (PutUint64 v) = 8"
  by (simp add: PutUint64_def)

lemma Uint64_PutUint64: "Uint64 (PutUint64 v @ r) = Inr v"
proof -
  have "(ucast (ucast v :: byte) OR push_bit 8 (ucast (ucast (drop_bit 8 v) :: byte))
          OR push_bit 16 (ucast (ucast (drop_bit 16 v) :: byte))
          OR push_bit 24 (ucast (ucast (drop_bit 24 v) :: byte))
          OR push_bit 32 (ucast (ucast (drop_bit 32 v) :: byte))
          OR push_bit 40 (ucast (ucast (drop_bit 40 v) :: byte))
          OR push_bit 48 (ucast (ucast (drop_bit 48 v) :: byte))
          OR push_bit 56 (ucast (ucast (drop_bit 56 v) :: byte))) = (v :: u64)"
  proof (rule bit_word_eqI)
    fix n :: nat
    assume "n < LENGTH(64)"
    then have n: "n < 64" by simp
    then consider "n < 8" | "8 \<le> n" "n < 16" | "16 \<le> n" "n < 24" | "24 \<le> n" "n < 32"
      | "32 \<le> n" "n < 40" | "40 \<le> n" "n < 48" | "48 \<le> n" "n < 56" | "56 \<le> n" "n < 64"
      by linarith
    then show "bit (ucast (ucast v :: byte) OR push_bit 8 (ucast (ucast (drop_bit 8 v) :: byte))
          OR push_bit 16 (ucast (ucast (drop_bit 16 v) :: byte))
          OR push_bit 24 (ucast (ucast (drop_bit 24 v) :: byte))
          OR push_bit 32 (ucast (ucast (drop_bit 32 v) :: byte))
          OR push_bit 40 (ucast (ucast (drop_bit 40 v) :: byte))
          OR push_bit 48 (ucast (ucast (drop_bit 48 v) :: byte))
          OR push_bit 56 (ucast (ucast (drop_bit 56 v) :: byte)) :: u64) n = bit v n"
      by cases (auto simp add: bit_simps)
  qed
  then show ?thesis
    by (simp add: Uint64_def PutUint64_def)
qed

text \<open>Entry keys: ordered as their indices, distinct for distinct indices, and never the
  key of the HardState or of the ConfState.\<close>

lemma getEntryKey_inj: "getEntryKey s a = getEntryKey s b \<longleftrightarrow> a = b"
  by (simp add: getEntryKey_def PutUint64_inj)

lemma getEntryKey_less: "getEntryKey s a < getEntryKey s b \<longleftrightarrow> a < b"
  by (simp add: getEntryKey_def PutUint64_less lex_append_less)

lemma getEntryKey_le: "getEntryKey s a \<le> getEntryKey s b \<longleftrightarrow> a \<le> b"
  by (simp add: order.order_iff_strict [of "getEntryKey s a"] getEntryKey_less getEntryKey_inj
      order.order_iff_strict [of a])

lemma getEntryKey_not_special:
  "getEntryKey (openRaftStorage prefix conf) i \<noteq> hardStateKey (openRaftStorage prefix conf)"
  "getEntryKey (openRaftStorage prefix conf) i \<noteq> confStateKey (openRaftStorage prefix conf)"
  by (simp_all add: getEntryKey_def openRaftStorage_def HARDSTATE_KEY_def CONFSTATE_KEY_def
      ENTRY_KEY_PREFIX_def)

lemma hardStateKey_not_confStateKey:
  "hardStateKey (openRaftStorage prefix conf) \<noteq> confStateKey (openRaftStorage prefix conf)"
  by (simp add: openRaftStorage_def HARDSTATE_KEY_def CONFSTATE_KEY_def)

section \<open>Write batches and the loops of save\<close>

lemma map_of_apply_batch_op: "map_of (apply_batch_op op c) = apply_op_map op (map_of c)"
  by (cases op) (simp_all add: update_conv' delete_conv')

lemma map_of_fold_batch: "map_of (fold apply_batch_op wb c) = fold apply_op_map wb (map_of c)"
  by (induction wb arbitrary: c) (simp_all add: map_of_apply_batch_op)

lemma fold_deletes:
  "fold apply_op_map (map (\<lambda>i. BDelete (f i)) js) m k = (if k \<in> f ` set js then None else m k)"
  by (induction js arbitrary: m) auto

lemma fold_puts_other:
  "k \<notin> set ks \<Longrightarrow> length vs = length ks \<Longrightarrow> fold apply_op_map (map2 BPut ks vs) m k = m k"
  by (induction ks vs arbitrary: m rule: list_induct2') auto

lemma fold_puts_distinct:
  "distinct ks \<Longrightarrow> length vs = length ks \<Longrightarrow> i < length ks \<Longrightarrow>
     fold apply_op_map (map2 BPut ks vs) m (ks ! i) = Some (vs ! i)"
proof (induction ks vs arbitrary: m i rule: list_induct2')
  case (4 k ks v vs)
  show ?case
  proof (cases i)
    case 0
    with 4 show ?thesis by (simp add: fold_puts_other)
  next
    case (Suc j)
    with 4 show ?thesis by simp
  qed
qed simp_all

lemma unat_succ: "(a :: u64) \<noteq> - 1 \<Longrightarrow> unat (a + 1) = Suc (unat a)"
proof -
  assume "a \<noteq> - 1"
  then have "1 + a \<noteq> 0"
    by (metis add.commute add_eq_0_iff)
  then show ?thesis
    using unatSuc [of a] by (simp add: add.commute)
qed

lemma index_range_rec:
  assumes "a \<le> b" and "b \<noteq> - 1"
  shows "index_range a b = a # index_range (a + 1) b"
proof -
  from assms have "a \<noteq> - 1"
    by (metis word_order.extremum_uniqueI)
  then have u: "unat (a + 1) = Suc (unat a)"
    by (rule unat_succ)
  from assms have "unat a < Suc (unat b)"
    by (simp add: word_le_nat_alt)
  then have "[unat a..<Suc (unat b)] = unat a # [Suc (unat a)..<Suc (unat b)]"
    by (rule upt_conv_Cons)
  then show ?thesis
    unfolding index_range_def u by simp
qed

lemma index_range_empty: "\<not> a \<le> b \<Longrightarrow> index_range a b = []"
  by (simp add: index_range_def word_le_nat_alt)

lemma set_index_range: "set (index_range a b) = {i. a \<le> i \<and> i \<le> b}"
proof (intro set_eqI iffI)
  fix i assume "i \<in> set (index_range a b)"
  then obtain n where n: "unat a \<le> n" "n \<le> unat b" "i = word_of_nat n"
    by (auto simp: index_range_def)
  then have "unat i = n"
    by (simp add: le_unat_uoi)
  with n show "i \<in> {i. a \<le> i \<and> i \<le> b}"
    by (simp add: word_le_nat_alt)
next
  fix i assume "i \<in> {i. a \<le> i \<and> i \<le> b}"
  then have "unat i \<in> {unat a..<Suc (unat b)}"
    by (simp add: word_le_nat_alt)
  then have "word_of_nat (unat i) \<in> set (index_range a b)"
    unfolding index_range_def set_map set_upt by (rule imageI)
  then show "i \<in> set (index_range a b)"
    by simp
qed

lemma save_delete_loop_closed:
  "lastIndex \<noteq> - 1 \<Longrightarrow>
     save_delete_loop s ix lastIndex wb =
       Some (wb @ map (\<lambda>i. BDelete (getEntryKey s i)) (index_range ix lastIndex))"
proof (induction "Suc (unat lastIndex) - unat ix" arbitrary: ix wb)
  case 0
  then have "\<not> ix \<le> lastIndex"
    by (simp add: word_le_nat_alt)
  then show ?case
    by (subst save_delete_loop.simps) (simp add: index_range_empty)
next
  case (Suc n)
  then have le: "ix \<le> lastIndex"
    by (simp add: word_le_nat_alt)
  with Suc.prems have "ix \<noteq> - 1"
    by (metis word_order.extremum_uniqueI)
  then have "unat (ix + 1) = Suc (unat ix)"
    by (rule unat_succ)
  with Suc.hyps(2) have "n = Suc (unat lastIndex) - unat (ix + 1)"
    by simp
  from Suc.hyps(1) [OF this Suc.prems] le Suc.prems show ?case
    by (subst save_delete_loop.simps) (simp add: index_range_rec)
qed

lemma save_delete_loop_returns:
  assumes "save_delete_loop s ix lastIndex wb = Some wb'"
  shows "lastIndex \<noteq> - 1"
proof (rule save_delete_loop.raw_induct [where P = "\<lambda>s ix lastIndex wb y. lastIndex \<noteq> - 1", OF _ assms])
  fix f :: "raftStorage \<Rightarrow> u64 \<Rightarrow> u64 \<Rightarrow> batch_op list \<Rightarrow> batch_op list option"
    and s ix lastIndex wb sa
  assume ih: "\<And>ix lastIndex wb b y. f ix lastIndex wb b = Some y \<Longrightarrow> wb \<noteq> - 1"
    and step: "(if ix \<le> lastIndex then f s (ix + 1) lastIndex (wb @ [BDelete (getEntryKey s ix)])
                else Some wb) = Some sa"
  show "lastIndex \<noteq> - 1"
  proof (cases "ix \<le> lastIndex")
    case True
    with step ih show ?thesis by simp
  next
    case False
    then show ?thesis by auto
  qed
qed

lemma save_append_loop_closed:
  "save_append_loop pb s es wb =
     (case marshal_entries pb es of
        Inl err \<Rightarrow> Inl err
      | Inr bs \<Rightarrow> Inr (wb @ map2 BPut (map (\<lambda>e. getEntryKey s (e_Index e)) es) bs))"
  by (induction es arbitrary: wb) (auto split: sum.splits)

lemma length_marshal_entries: "marshal_entries pb es = Inr bs \<Longrightarrow> length bs = length es"
  by (induction es arbitrary: bs) (auto split: sum.splits)

lemma Uint64_PutUint64_exact: "Uint64 (PutUint64 v) = Inr v"
  using Uint64_PutUint64 [of v "[]"] by simp

lemma save_unfold:
  "save pb s db state entries =
     (case HardState_Marshal pb state of
        Inl err \<Rightarrow> Some (Inr (Some err, db))
      | Inr sb \<Rightarrow>
          if entries = [] then Some (Inr (prod.swap (db_Write db (save_batch s sb 0 [] []))))
          else
            (case LastIndex s db of
               Inl p \<Rightarrow> Some (Inl p)
             | Inr (li, Some err) \<Rightarrow> Some (Inr (Some err, db))
             | Inr (li, None) \<Rightarrow>
                 if e_Index (hd entries) > li + 1 then Some (Inl (Panic ''missing log entries''))
                 else if li = - 1 then None
                 else
                   (case marshal_entries pb entries of
                      Inl err \<Rightarrow> Some (Inr (Some err, db))
                    | Inr bs \<Rightarrow> Some (Inr (prod.swap (db_Write db (save_batch s sb li entries bs)))))))"
proof (cases "HardState_Marshal pb state")
  case (Inl err)
  then show ?thesis by (simp add: save_def)
next
  case (Inr sb)
  show ?thesis
  proof (cases "entries = []")
    case True
    with Inr show ?thesis by (simp add: save_def save_batch_def)
  next
    case False
    then have hd: "entries ! 0 = hd entries"
      by (simp add: hd_conv_nth)
    show ?thesis
    proof (cases "LastIndex s db")
      case (Inl p)
      with Inr False show ?thesis by (simp add: save_def)
    next
      case r: (Inr r)
      obtain li e where r': "r = (li, e)" by (cases r)
      show ?thesis
      proof (cases e)
        case (Some err)
        with Inr False r r' show ?thesis by (simp add: save_def)
      next
        case None
        show ?thesis
        proof (cases "li = - 1")
          case True
          have "save_delete_loop s ix (- 1) wb = None" for ix wb
            using save_delete_loop_returns [of s ix "- 1" wb] by (cases "save_delete_loop s ix (- 1) wb") auto
          with Inr False r r' None True show ?thesis
            by (simp add: save_def hd)
        next
          case n1: False
          with Inr False r r' None show ?thesis
            by (simp add: save_def hd save_delete_loop_closed save_append_loop_closed save_batch_def
                split: sum.splits)
        qed
      qed
    qed
  qed
qed




lemma lookup_commit:
  "write_fault db = None \<Longrightarrow>
     lookup (fst (db_Write db wb)) k = fold apply_op_map wb (lookup db) k"
  by (simp add: db_Write_def lookup_def [abs_def] map_of_fold_batch)

lemma save_batch_lookup:
  "fold apply_op_map (save_batch s sb li entries bs) m =
     (if entries = [] then m(hardStateKey s \<mapsto> sb)
      else fold apply_op_map (map2 BPut (map (\<lambda>e. getEntryKey s (e_Index e)) entries) bs)
       (fold apply_op_map (map (\<lambda>i. BDelete (getEntryKey s i)) (index_range (e_Index (hd entries)) li))
          (m(hardStateKey s \<mapsto> sb))))"
  by (simp add: save_batch_def)

lemma save_batch_hardstate:
  assumes "s = openRaftStorage prefix conf" and "length bs = length entries"
  shows "fold apply_op_map (save_batch s sb li entries bs) m (hardStateKey s) = Some sb"
proof -
  have ns: "getEntryKey s i \<noteq> hardStateKey s" for i
    unfolding assms(1) by (rule getEntryKey_not_special(1))
  have 1: "hardStateKey s \<notin> set (map (\<lambda>e. getEntryKey s (e_Index e)) entries)"
  proof
    assume "hardStateKey s \<in> set (map (\<lambda>e. getEntryKey s (e_Index e)) entries)"
    then obtain e :: Entry where "hardStateKey s = getEntryKey s (e_Index e)"
      unfolding set_map by blast
    with ns [of "e_Index e"] show False
      by simp
  qed
  have 2: "hardStateKey s \<notin> getEntryKey s ` A" for A
  proof
    assume "hardStateKey s \<in> getEntryKey s ` A"
    then obtain i where "hardStateKey s = getEntryKey s i"
      by blast
    with ns [of i] show False
      by simp
  qed
  show ?thesis
    unfolding save_batch_lookup
    using 1 2 assms(2) by (simp add: fold_puts_other fold_deletes del: set_map)
qed


lemma save_batch_written:
  assumes "length bs = length entries" and "distinct (map e_Index entries)" and "j < length entries"
  shows "fold apply_op_map (save_batch s sb li entries bs) m (getEntryKey s (e_Index (entries ! j)))
     = Some (bs ! j)"
proof -
  have "distinct (map (getEntryKey s) (map e_Index entries))"
    using assms(2) by (simp add: distinct_map inj_on_def getEntryKey_inj del: map_map)
  then have d: "distinct (map (\<lambda>e. getEntryKey s (e_Index e)) entries)"
    by (simp add: comp_def)
  from assms(3) have ne: "entries \<noteq> []"
    by auto
  show ?thesis
    unfolding save_batch_lookup
    using fold_puts_distinct [OF d, of bs j] assms(1,3) ne by simp
qed

lemma save_batch_frame:
  assumes "length bs = length entries" and "k \<noteq> hardStateKey s"
    and "\<And>i. k = getEntryKey s i \<Longrightarrow>
           i \<notin> e_Index ` set entries \<and> (entries = [] \<or> i < e_Index (hd entries) \<or> li < i)"
  shows "fold apply_op_map (save_batch s sb li entries bs) m k = m k"
proof -
  have 1: "k \<notin> set (map (\<lambda>e. getEntryKey s (e_Index e)) entries)"
    using assms(3) by (auto simp: image_iff)
  have 2: "k \<notin> getEntryKey s ` set (index_range (e_Index (hd entries)) li)" if "entries \<noteq> []"
  proof
    assume "k \<in> getEntryKey s ` set (index_range (e_Index (hd entries)) li)"
    then obtain x where x: "k = getEntryKey s x" "e_Index (hd entries) \<le> x" "x \<le> li"
      by (auto simp: set_index_range)
    from assms(3) [OF x(1)] that x(2,3) show False
      by auto
  qed
  show ?thesis
    unfolding save_batch_lookup
    using 1 2 assms(1,2) by (simp add: fold_puts_other fold_deletes del: set_map)
qed

lemma save_returns_cases:
  assumes "save pb s db state entries = Some (Inr (err, db'))"
  shows "db' = db \<or>
    (\<exists>sb li bs. write_fault db = None \<and> length bs = length entries \<and>
       db' = fst (db_Write db (save_batch s sb li entries bs)))"
proof -
  have *: "db' = db \<or> (\<exists>sb li bs. length bs = length entries \<and>
             prod.swap (db_Write db (save_batch s sb li entries bs)) = (err, db'))"
  proof (cases "HardState_Marshal pb state")
    case (Inl e)
    with assms show ?thesis by (simp add: save_unfold)
  next
    case (Inr sb)
    show ?thesis
    proof (cases "entries = []")
      case True
      with assms Inr have "prod.swap (db_Write db (save_batch s sb 0 entries [])) = (err, db')"
        by (simp add: save_unfold)
      with True show ?thesis by auto
    next
      case ne: False
      show ?thesis
      proof (cases "LastIndex s db")
        case (Inl p)
        with assms Inr ne show ?thesis by (simp add: save_unfold)
      next
        case r: (Inr r)
        obtain li e where r': "r = (li, e)" by (cases r)
        show ?thesis
        proof (cases e)
          case (Some e')
          with assms Inr ne r r' show ?thesis by (simp add: save_unfold)
        next
          case None
          show ?thesis
          proof (cases "marshal_entries pb entries")
            case (Inl e')
            with assms Inr ne r r' None show ?thesis
              by (simp add: save_unfold split: if_splits)
          next
            case bs: (Inr bs)
            then have "length bs = length entries"
              by (rule length_marshal_entries)
            moreover from assms Inr ne r r' None bs
            have "prod.swap (db_Write db (save_batch s sb li entries bs)) = (err, db')"
              by (simp add: save_unfold split: if_splits)
            ultimately show ?thesis by auto
          qed
        qed
      qed
    qed
  qed
  show ?thesis
  proof (cases "write_fault db")
    case None
    with * show ?thesis
      by (auto simp: db_Write_def)
  next
    case (Some e)
    with * show ?thesis
      by (auto simp: db_Write_def)
  qed
qed

text \<open>The keys of the storage opened with the empty prefix.\<close>

lemma s0_keys:
  "hardStateKey s0 = [0x48, 0x53]"
  "confStateKey s0 = [0x43, 0x53]"
  "entryKeyPrefix s0 = [0x45]"
  by (simp_all add: s0_def openRaftStorage_def HARDSTATE_KEY_def CONFSTATE_KEY_def ENTRY_KEY_PREFIX_def)

lemma s0_entry_keys:
  "getEntryKey s0 0 = [0x45, 0, 0, 0, 0, 0, 0, 0, 0]"
  "getEntryKey s0 1 = [0x45, 0, 0, 0, 0, 0, 0, 0, 1]"
  "getEntryKey s0 2 = [0x45, 0, 0, 0, 0, 0, 0, 0, 2]"
  "getEntryKey s0 3 = [0x45, 0, 0, 0, 0, 0, 0, 0, 3]"
  "getEntryKey s0 (- 1) = [0x45, 255, 255, 255, 255, 255, 255, 255, 255]"
      apply (simp_all add: getEntryKey_def s0_keys)
      apply (simp_all add: PutUint64_def)
  apply code_simp
  done

section \<open>The VRF: byte strings and integers, the loop of hash-to-curve\<close>

lemma length_I2OSP: "length (I2OSP b n) = n"
  by (simp add: I2OSP_def Let_def)

lemma OS2IP_snoc: "OS2IP (xs @ [b]) = OS2IP xs * 256 + int (unat b)"
  by (simp add: OS2IP_def)

lemma OS2IP_Nil: "OS2IP [] = 0"
  by (simp add: OS2IP_def)

lemma OS2IP_nat_bytes: "OS2IP (nat_bytes n) = int n"
proof (induction n rule: nat_bytes.induct)
  case (1 n)
  show ?case
  proof (cases "n = 0")
    case True
    then show ?thesis by (subst nat_bytes.simps) (simp add: OS2IP_Nil)
  next
    case False
    have b: "unat (word_of_nat (n mod 256) :: byte) = n mod 256"
      by (simp add: unat_of_nat)
    have "OS2IP (nat_bytes n) = OS2IP (nat_bytes (n div 256)) * 256 + int (n mod 256)"
      using False by (subst nat_bytes.simps) (simp add: OS2IP_snoc b)
    also have "\<dots> = int (n div 256) * 256 + int (n mod 256)"
      using 1 False by simp
    also have "\<dots> = int n"
      by (metis div_mult_mod_eq of_nat_add of_nat_mult of_nat_numeral)
    finally show ?thesis .
  qed
qed

lemma foldl_zeros: "foldl (\<lambda>a b. a * 256 + unat b) 0 (replicate k (0::byte) @ os)
    = foldl (\<lambda>a b. a * 256 + unat b) 0 os"
  by (induction k) simp_all

lemma OS2IP_zeros: "OS2IP (replicate k 0 @ os) = OS2IP os"
  by (simp add: OS2IP_def foldl_zeros del: foldl_append)

lemma length_nat_bytes: "n < 256 ^ k \<Longrightarrow> length (nat_bytes n) \<le> k"
proof (induction n arbitrary: k rule: nat_bytes.induct)
  case (1 n)
  show ?case
  proof (cases "n = 0")
    case True
    then show ?thesis by (subst nat_bytes.simps) simp
  next
    case False
    with 1(2) obtain k' where k: "k = Suc k'" by (cases k) auto
    with 1(2) have "n div 256 < 256 ^ k'"
      by (simp add: less_mult_imp_div_less mult.commute)
    with 1(1) False have "length (nat_bytes (n div 256)) \<le> k'" by simp
    with False k show ?thesis by (subst nat_bytes.simps) simp
  qed
qed

lemma OS2IP_I2OSP: "0 \<le> c \<Longrightarrow> c < 256 ^ n \<Longrightarrow> OS2IP (I2OSP c n) = c"
proof -
  assume c: "0 \<le> c" "c < 256 ^ n"
  then have "nat c < 256 ^ n"
    by (metis nat_less_iff of_nat_numeral of_nat_power)
  then have len: "length (nat_bytes (nat c)) \<le> n" by (rule length_nat_bytes)
  have abs: "nat \<bar>c\<bar> = nat c" using c by simp
  show ?thesis
  proof (cases "n > length (nat_bytes (nat c))")
    case True
    then show ?thesis using c
      by (simp add: I2OSP_def Int_Bytes_def Let_def abs OS2IP_zeros OS2IP_nat_bytes)
  next
    case False
    with len have "n = length (nat_bytes (nat c))" by simp
    then show ?thesis using c
      by (simp add: I2OSP_def Int_Bytes_def Let_def abs OS2IP_nat_bytes)
  qed
qed

lemma OS2IP_bound: "0 \<le> OS2IP os \<and> OS2IP os < 256 ^ length os"
proof (induction os rule: rev_induct)
  case Nil
  show ?case by (simp add: OS2IP_Nil)
next
  case (snoc b os)
  have "uint b < 256" using unsigned_less [of b, where 'a = int] by simp
  with snoc show ?case by (simp add: OS2IP_snoc)
qed

lemma be_nat_nat_bytes:
  "n < 256 ^ k \<Longrightarrow> be_nat k n = replicate (k - length (nat_bytes n)) 0 @ nat_bytes n"
proof (induction k arbitrary: n)
  case 0
  then show ?case by (subst nat_bytes.simps, subst nat_bytes.simps) simp
next
  case (Suc k)
  then have d: "n div 256 < 256 ^ k"
    by (simp add: less_mult_imp_div_less mult.commute)
  show ?case
  proof (cases "n = 0")
    case True
    have nb: "nat_bytes 0 = []" by (subst nat_bytes.simps) simp
    from Suc.IH [of 0] have "be_nat k 0 = replicate k 0" by (simp add: nb)
    with True show ?thesis by (simp add: nb replicate_append_same)
  next
    case False
    have nb: "nat_bytes n = nat_bytes (n div 256) @ [word_of_nat (n mod 256)]"
      using False by (subst nat_bytes.simps) simp
    have len: "length (nat_bytes (n div 256)) \<le> k" using d by (rule length_nat_bytes)
    show ?thesis using Suc.IH [OF d] len by (simp add: nb Suc_diff_le)
  qed
qed

lemma I2OSP_be_nat: "i < 256 ^ k \<Longrightarrow> I2OSP (int i) k = be_nat k i"
proof -
  assume i: "i < 256 ^ k"
  then have len: "length (nat_bytes i) \<le> k" by (rule length_nat_bytes)
  show ?thesis
  proof (cases "k > length (nat_bytes i)")
    case True
    then show ?thesis using be_nat_nat_bytes [OF i] by (simp add: I2OSP_def Int_Bytes_def Let_def)
  next
    case False
    with len have "k = length (nat_bytes i)" by simp
    then show ?thesis using be_nat_nat_bytes [OF i] by (simp add: I2OSP_def Int_Bytes_def Let_def)
  qed
qed

lemma hash_to_curve_from_step:
  "hash_to_curve_from E m pk i =
     (if i < limit then
        (case first_decoding E (counter_digest E m pk i) of
           Some P \<Rightarrow> Inr P
         | None \<Rightarrow> hash_to_curve_from E m pk (Suc i))
      else Inl (Panicked (Panic ''ECVRF_hash_to_curve: couldn't make a point on curve'')))"
proof (cases "i < limit")
  case True
  then have "i < 256 ^ 4" by (simp add: limit_def)
  then have "I2OSP (int i) 4 = be_nat 4 i" by (rule I2OSP_be_nat)
  with True show ?thesis
    by (subst hash_to_curve_from.simps)
      (simp add: first_decoding_def counter_digest_def Let_def split: option.splits)
next
  case False
  then show ?thesis by (subst hash_to_curve_from.simps) simp
qed







lemma toy_sel [simp]:
  "FromBytes one_point_curve = (\<lambda>bs. (bs ! 0 = 1, ge_identity))"
  "ToBytes one_point_curve = (\<lambda>P. 1 # replicate 31 0)"
  "ProjToBytes one_point_curve = (\<lambda>P. 1 # replicate 31 0)"
  "GeScalarMultBase one_point_curve = (\<lambda>a. ge_identity)"
  "SHA256 one_point_curve = (\<lambda>bs. replicate 32 (last bs))"
  "SHA512 one_point_curve = (\<lambda>bs. replicate 64 (hd bs))"
  by (simp_all add: one_point_curve_def)

lemma toy_GeScalarMult: "GeScalarMult one_point_curve P a = ge_identity"
  by (simp add: GeScalarMult_def)

lemma toy_OS2ECP:
  "length os = 32 \<Longrightarrow>
   OS2ECP one_point_curve os sign = (if os ! 0 = 1 then Some ge_identity else None)"
  by (simp add: OS2ECP_def go_copy_def toy_GeScalarMult)

lemma toy_counter_digest:
  "counter_digest one_point_curve m pk i = replicate 32 (word_of_nat (i mod 256))"
proof -
  have "be_nat 4 i = be_nat 3 (i div 256) @ [word_of_nat (i mod 256)]"
    using be_nat.simps(2) [of 3 i] by simp
  then show ?thesis by (simp add: counter_digest_def)
qed

lemma toy_first_decoding:
  "first_decoding one_point_curve (counter_digest one_point_curve m pk i) =
     (if (word_of_nat (i mod 256) :: byte) = 1 then Some ge_identity else None)"
  by (simp add: first_decoding_def toy_counter_digest toy_OS2ECP)

lemma toy_hash_to_curve: "ECVRF_hash_to_curve one_point_curve m pk = Inr ge_identity"
proof -
  have "hash_to_curve_from one_point_curve m pk (Suc 0) = Inr ge_identity"
    by (subst hash_to_curve_from_step) (simp add: toy_first_decoding limit_def)
  then show ?thesis
    unfolding ECVRF_hash_to_curve_def
    by (subst hash_to_curve_from_step) (simp add: toy_first_decoding limit_def)
qed

lemma bind_result_Inr:
  "bind_result r f = Inr y \<longleftrightarrow> (\<exists>x. r = Inr x \<and> f x = Inr y)"
  by (cases r) (simp_all add: bind_result_def)

lemma S2OS_Inr:
  "S2OS s = Inr os \<longleftrightarrow> 32 \<le> length s \<and> os = (drop_bit 7 (s ! 31) + 2) # s"
  by (auto simp add: S2OS_def)

lemma ECVRF_prove_InrD:
  assumes "ECVRF_prove E pk sk m rnd = Inr pf"
  shows "\<exists>x h r kp ks k p1 p2 p3 p5 p6 c.
    expandSecret E sk = Inr x \<and> ECVRF_hash_to_curve E m pk = Inr h \<and>
    ECP2OS E (GeScalarMult E h x) = Inr r \<and> rnd = Inr (kp, ks) \<and>
    expandSecret E ks = Inr k \<and> ECP2OS E (G E) = Inr p1 \<and> ECP2OS E h = Inr p2 \<and>
    S2OS pk = Inr p3 \<and> S2OS kp = Inr p5 \<and> ECP2OS E (GeScalarMult E h k) = Inr p6 \<and>
    ECVRF_hash_points E [p1, p2, p3, r, p5, p6] = Inr c \<and>
    pf = r @ I2OSP c N @ I2OSP ((F2IP k - c * F2IP x) mod q) N2"
proof -
  from assms obtain x where x: "expandSecret E sk = Inr x"
    by (auto simp add: ECVRF_prove_def bind_result_Inr)
  from assms x obtain h where h: "ECVRF_hash_to_curve E m pk = Inr h"
    by (auto simp add: ECVRF_prove_def bind_result_Inr)
  from assms x h obtain r where r: "ECP2OS E (GeScalarMult E h x) = Inr r"
    by (auto simp add: ECVRF_prove_def bind_result_Inr)
  from assms x h r obtain kp ks where rnd: "rnd = Inr (kp, ks)"
    by (cases rnd) (auto simp add: ECVRF_prove_def bind_result_Inr)
  from assms x h r rnd show ?thesis
    by (simp add: ECVRF_prove_def bind_result_Inr Let_def) blast
qed

lemma q_bound: "q < 256 ^ 32"
  by (simp add: q_def)

lemma q_pos: "0 < q"
  by (simp add: q_def)

lemma ECVRF_hash_points_bound:
  "ECVRF_hash_points E ps = Inr c \<Longrightarrow> 0 \<le> c \<and> c < 256 ^ 16"
proof -
  assume a: "ECVRF_hash_points E ps = Inr c"
  then have len: "N \<le> length (SHA256 E (concat ps))" and c: "c = OS2IP (take N (SHA256 E (concat ps)))"
    by (auto simp add: ECVRF_hash_points_def Let_def split: if_splits)
  from len have "length (take N (SHA256 E (concat ps))) = 16"
    by (simp add: N_def N2_def)
  with OS2IP_bound [of "take N (SHA256 E (concat ps))"] c show ?thesis by simp
qed

lemma toy_prove:
  "32 \<le> length pk \<Longrightarrow> 32 \<le> length sk \<Longrightarrow> 32 \<le> length kp \<Longrightarrow> 32 \<le> length ks \<Longrightarrow>
   \<exists>c s. ECVRF_prove one_point_curve pk sk m (Inr (kp, ks))
     = Inr ((2 # 1 # replicate 31 0) @ I2OSP c 16 @ I2OSP s 32)"
  by (simp add: ECVRF_prove_def bind_result_def expandSecret_def toy_hash_to_curve ECP2OS_def
      S2OS_def toy_GeScalarMult G_def ECVRF_hash_points_def N_def N2_def Let_def) blast

lemma example_lengths:
  "32 \<le> length pk0" "32 \<le> length sk0" "32 \<le> length ks1" "32 \<le> length ks2"
  by (simp_all add: pk0_def sk0_def ks1_def ks2_def)

section \<open>The VRF: the group behind the package, and what the VRF's functions compute in it\<close>

lemma smul_0 [simp]: "smul 0 P = 0"
  by (simp add: smul_def)

lemma smul_Suc: "smul (Suc n) P = P + smul n P"
  by (simp add: smul_def)

lemma smul_1 [simp]: "smul (Suc 0) P = P"
  by (simp add: smul_Suc)

lemma smul_zero [simp]: "smul n 0 = 0"
  by (induction n) (simp_all add: smul_Suc)

lemma smul_add: "smul (m + n) P = smul m P + smul n P"
  by (induction m) (simp_all add: smul_Suc add.assoc)

lemma smul_mult: "smul (m * n) P = smul m (smul n P)"
  by (induction m) (simp_all add: smul_Suc smul_add)

lemma smul_mult_zero: "smul k P = 0 \<Longrightarrow> smul (j * k) P = 0"
  by (simp add: smul_mult)




lemma le_nat_zeros [simp]: "le_nat (replicate n 0) = 0"
  by (induction n) simp_all








lemma contractD:
  assumes "edwards25519_contract E aff enc B d"
  shows "(2 :: 'a::field) \<noteq> 0"
    and "FeAdd E = (+)" and "FeSub E = (-)" and "FeMul E = (*)"
    and "d2 E = 2 * (d :: 'a)"
    and "\<And>P Q. 1 + d * fst (aff P) * fst (aff Q) * snd (aff P) * snd (aff Q) \<noteq> 0"
    and "\<And>P Q. 1 - d * fst (aff P) * fst (aff Q) * snd (aff P) * snd (aff Q) \<noteq> 0"
    and "\<And>P Q. aff (P + Q) =
              ((fst (aff P) * snd (aff Q) + snd (aff P) * fst (aff Q)) /
                 (1 + d * fst (aff P) * fst (aff Q) * snd (aff P) * snd (aff Q)),
               (snd (aff P) * snd (aff Q) + fst (aff P) * fst (aff Q)) /
                 (1 - d * fst (aff P) * fst (aff Q) * snd (aff P) * snd (aff Q)))"
    and "\<And>c. ToExtended E c =
        \<lparr>geX = cgX c * cgT c, geY = cgY c * cgZ c, geZ = cgZ c * cgT c, geT = cgX c * cgY c\<rparr>"
    and "\<And>e P. represents aff e P \<Longrightarrow> ToBytes E e = enc P"
    and "\<And>P. fst (FromBytes E (enc P))"
    and "\<And>P. represents aff (snd (FromBytes E (enc P))) P"
    and "\<And>bs. fst (FromBytes E bs) \<Longrightarrow> \<exists>P. represents aff (snd (FromBytes E bs)) P"
    and "\<And>a e b P. represents aff e P \<Longrightarrow> length a = 32 \<Longrightarrow> length b = 32 \<Longrightarrow>
        ProjToBytes E (GeDoubleScalarMultVartime E a e b)
          = enc (smul (le_nat a) P + smul (le_nat b) B)"
    and "\<And>a. length a = 32 \<Longrightarrow> a ! 31 \<le> 127 \<Longrightarrow>
        represents aff (GeScalarMultBase E a) (smul (le_nat a) B)"
    and "FeToBytes E (FeOne E) = 1 # replicate 31 0"
    and "\<And>P. length (enc P) = 32"
    and "\<And>P Q. enc P = enc Q \<Longrightarrow> P = Q"
    and "enc 0 = 1 # replicate 31 0"
    and "smul (nat q) B = 0"
    and "\<And>bs. length (SHA256 E bs) = 32"
    and "\<And>bs. length (SHA512 E bs) = 64"
  using assms unfolding edwards25519_contract_def by blast+






lemma G_represents:
  fixes aff :: "'g::ab_group_add \<Rightarrow> 'f::field \<times> 'f"
  assumes C: "edwards25519_contract E aff enc B d"
  shows "represents aff (G E) B"
proof -
  have "represents aff (GeScalarMultBase E (1 # replicate 31 0)) (smul (le_nat (1 # replicate 31 0)) B)"
    by (rule contractD(15) [OF C]) simp_all
  then show ?thesis by (simp add: G_def contractD(16) [OF C])
qed







lemma toy_fields [simp]:
  "FeAdd one_point_curve = (+)" "FeSub one_point_curve = (-)" "FeMul one_point_curve = (*)"
  "FeOne one_point_curve = 1" "FeOfLimbs one_point_curve = (\<lambda>ls. 0)"
  "FeToBytes one_point_curve = (\<lambda>f. if f = 1 then 1 # replicate 31 0 else replicate 32 0)"
  "GeDoubleScalarMultVartime one_point_curve = (\<lambda>a P b. ())"
  "ToExtended one_point_curve = (\<lambda>c. \<lparr>geX = cgX c * cgT c, geY = cgY c * cgZ c,
     geZ = cgZ c * cgT c, geT = cgX c * cgY c\<rparr>)"
  by (simp_all add: one_point_curve_def)



section \<open>The UpdateProfile handler and the preserve-encoding wrapper\<close>

lemma go_copy_zeroes: "go_copy (replicate (length src) z) src = (src, length src)"
  by (simp add: go_copy_def)

lemma Marshal_emits_preserved: "Marshal m = Inr (PreservedEncoding m)"
  by (simp add: Marshal_def MarshalTo_def Size_pe_def go_copy_zeroes)

lemma Unmarshal_preserves: "PreservedEncoding (fst (Unmarshal U m b)) = b"
  by (simp add: Unmarshal_def Let_def split: prod.splits)

lemma Equal_ignores_bytes:
  "Equal E (m\<lparr>PreservedEncoding := xs\<rparr>) (that_with_bytes ys that) = Equal E m that"
  by (cases "(ys, that)" rule: that_with_bytes.cases) (simp_all add: Equal_def)

lemma VerboseEqual_ignores_bytes:
  "VerboseEqual V (m\<lparr>PreservedEncoding := xs\<rparr>) (that_with_bytes ys that) = VerboseEqual V m that"
  by (cases "(ys, that)" rule: that_with_bytes.cases) (simp_all add: VerboseEqual_def)

text \<open>C9: for every request (and every server state and context) the handler returns a nil
  proof together with the error "UpdateProfile not implemented"; the error is never nil,
  so the call never succeeds, and the server state is returned as it was.\<close>

theorem UpdateProfile_not_implemented:
  "fst (UpdateProfile ks ctx req) = ks \<and>
   fst (snd (UpdateProfile ks ctx req)) = None \<and>
   snd (snd (UpdateProfile ks ctx req)) = Some (Errorf ''UpdateProfile not implemented'') \<and>
   snd (snd (UpdateProfile ks ctx req)) \<noteq> None"
  by (simp add: UpdateProfile_def)

text \<open>C4: whenever \<open>Unmarshal\<close> accepts a byte string \<open>b\<close> (the embedded decoder reports no
  error), \<open>Marshal\<close> on the resulting wrapper emits exactly \<open>b\<close>, whatever the decoder made
  of it; \<open>Equal\<close> and \<open>VerboseEqual\<close> against a wrapper (pointer or value) return what the
  embedded comparisons return on the two decoded views, and their results do not change
  when the preserved bytes of either side are replaced by any other bytes.\<close>

theorem preserve_encoding_roundtrip:
  assumes "Unmarshal U m b = (m', None)"
  shows "Marshal m' = Inr b \<and>
    Equal E m' (ThatPtr (Some t)) = Inr (E (SignedEntryUpdate m') (SignedEntryUpdate t)) \<and>
    Equal E m' (ThatVal t) = Inr (E (SignedEntryUpdate m') (SignedEntryUpdate t)) \<and>
    VerboseEqual V m' (ThatPtr (Some t)) = Inr (V (SignedEntryUpdate m') (SignedEntryUpdate t)) \<and>
    VerboseEqual V m' (ThatVal t) = Inr (V (SignedEntryUpdate m') (SignedEntryUpdate t)) \<and>
    Equal E (m'\<lparr>PreservedEncoding := xs\<rparr>) (that_with_bytes ys that) = Equal E m' that \<and>
    VerboseEqual V (m'\<lparr>PreservedEncoding := xs\<rparr>) (that_with_bytes ys that) = VerboseEqual V m' that"
proof -
  from assms have "PreservedEncoding m' = b"
    using Unmarshal_preserves [of U m b] by simp
  then have "Marshal m' = Inr b"
    by (simp add: Marshal_emits_preserved)
  then show ?thesis
    by (simp add: Equal_ignores_bytes VerboseEqual_ignores_bytes) (simp add: Equal_def VerboseEqual_def)
qed

text \<open>A witness: a decoder that accepts exactly the one-byte strings, run on the byte 7 from
  a wrapper that held other bytes; the comparison is made against a wrapper whose decoded
  view is equal and whose preserved bytes differ.\<close>

theorem preserve_encoding_roundtrip_witness:
  "Unmarshal (\<lambda>d bs. if length bs = 1 then (unat (hd bs), None) else (d, Some (IOError 0)))
       \<lparr>SignedEntryUpdate = 0, PreservedEncoding = [1, 2]\<rparr> [7]
     = (\<lparr>SignedEntryUpdate = 7, PreservedEncoding = [7]\<rparr>, None) \<and>
   Marshal \<lparr>SignedEntryUpdate = 7 :: nat, PreservedEncoding = [7]\<rparr> = Inr [7] \<and>
   Equal (=) \<lparr>SignedEntryUpdate = 7 :: nat, PreservedEncoding = [7]\<rparr>
     (ThatVal \<lparr>SignedEntryUpdate = 7, PreservedEncoding = [9, 9]\<rparr>) = Inr True"
proof -
  have u: "Unmarshal (\<lambda>d bs. if length bs = 1 then (unat (hd bs), None) else (d, Some (IOError 0)))
       \<lparr>SignedEntryUpdate = 0, PreservedEncoding = [1, 2]\<rparr> [7]
     = (\<lparr>SignedEntryUpdate = 7, PreservedEncoding = [7]\<rparr>, None)"
    by (simp add: Unmarshal_def)
  from preserve_encoding_roundtrip [OF u, of "(=)" "\<lparr>SignedEntryUpdate = 7, PreservedEncoding = [9, 9]\<rparr>"]
  show ?thesis
    using u by simp
qed

section \<open>What save commits\<close>






text \<open>C10 (as amended): whenever \<open>save\<close> returns, on the storage opened for a prefix,
  the ConfState key is unchanged, and so is every stored log entry whose index is not the
  index of one of the new entries and, when there are entries, is strictly below
  \<open>entries[0].Index\<close>; with no entries every key other than the HardState key is
  unchanged and the only write attempted is the one of the HardState (nothing is deleted).
  When \<open>save\<close> panics or does not return it has committed nothing.\<close>

theorem save_frame:
  assumes "s = openRaftStorage prefix conf"
    and "save pb s db state entries = Some (Inr (err, db'))"
  shows
   "lookup db' (confStateKey s) = lookup db (confStateKey s) \<and>
    (\<forall>i. i \<notin> e_Index ` set entries \<and> (entries \<noteq> [] \<longrightarrow> i < e_Index (hd entries))
        \<longrightarrow> lookup db' (getEntryKey s i) = lookup db (getEntryKey s i)) \<and>
    (entries = [] \<longrightarrow>
       (\<forall>k. k \<noteq> hardStateKey s \<longrightarrow> lookup db' k = lookup db k) \<and>
       (case HardState_Marshal pb state of
          Inl e \<Rightarrow> (db', err) = (db, Some e)
        | Inr sb \<Rightarrow> (db', err) = db_Write db [BPut (hardStateKey s) sb]))"
proof -
  have frame: "lookup db' k = lookup db k"
    if k: "k \<noteq> hardStateKey s"
      "\<And>i li. k = getEntryKey s i \<Longrightarrow>
          i \<notin> e_Index ` set entries \<and> (entries = [] \<or> i < e_Index (hd entries) \<or> li < i)" for k
  proof -
    from save_returns_cases [OF assms(2)]
    consider "db' = db"
      | sb li bs where "write_fault db = None" "length bs = length entries"
          "db' = fst (db_Write db (save_batch s sb li entries bs))"
      by blast
    then show ?thesis
    proof cases
      case 1
      then show ?thesis by simp
    next
      case 2
      then show ?thesis
        using save_batch_frame [of bs entries k s li sb "lookup db"] k
        by (simp add: lookup_commit)
    qed
  qed
  have cs: "confStateKey s \<noteq> getEntryKey s i" for i
    unfolding assms(1) by (rule getEntryKey_not_special(2) [symmetric])
  have 1: "lookup db' (confStateKey s) = lookup db (confStateKey s)"
  proof (rule frame)
    show "confStateKey s \<noteq> hardStateKey s"
      unfolding assms(1) by (rule hardStateKey_not_confStateKey [symmetric])
  qed (simp add: cs)
  have 2: "lookup db' (getEntryKey s i) = lookup db (getEntryKey s i)"
    if "i \<notin> e_Index ` set entries \<and> (entries \<noteq> [] \<longrightarrow> i < e_Index (hd entries))" for i
  proof (rule frame)
    show "getEntryKey s i \<noteq> hardStateKey s"
      unfolding assms(1) by (rule getEntryKey_not_special(1))
  next
    fix j li
    assume "getEntryKey s i = getEntryKey s j"
    then have "j = i" by (simp add: getEntryKey_inj)
    with that show "j \<notin> e_Index ` set entries \<and> (entries = [] \<or> j < e_Index (hd entries) \<or> li < j)"
      by auto
  qed
  have 3: "lookup db' k = lookup db k" if "entries = []" "k \<noteq> hardStateKey s" for k
    by (rule frame) (use that in auto)
  have 4: "(case HardState_Marshal pb state of
          Inl e \<Rightarrow> (db', err) = (db, Some e)
        | Inr sb \<Rightarrow> (db', err) = db_Write db [BPut (hardStateKey s) sb])" if "entries = []"
    using assms(2) that
    by (cases "db_Write db [BPut (hardStateKey s) (projr (HardState_Marshal pb state))]")
      (auto simp: save_unfold save_batch_def split: sum.splits)
  from 1 2 3 4 show ?thesis
    by blast
qed


text \<open>A witness: the store holds a ConfState and entries 1, 2 and 3; saving one entry with
  index 2 leaves the ConfState and entry 1 as they were.\<close>

theorem save_frame_witness:
  "save example_pb s0
     (example_db [(confStateKey s0, [4]), (getEntryKey s0 1, [1, 1]), (getEntryKey s0 2, [1, 2]),
        (getEntryKey s0 3, [1, 3])])
     \<lparr>hs_Term = 5, hs_Vote = 1, hs_Commit = 1\<rparr>
     [\<lparr>e_Type = EntryNormal, e_Term = 5, e_Index = 2, e_Data = [9]\<rparr>]
     = Some (Inr (None, example_db [(confStateKey s0, [4]), (getEntryKey s0 1, [1, 1]),
          (hardStateKey s0, [5, 1, 1]), (getEntryKey s0 2, [5, 2, 9])])) \<and>
   lookup (example_db [(confStateKey s0, [4]), (getEntryKey s0 1, [1, 1]),
          (hardStateKey s0, [5, 1, 1]), (getEntryKey s0 2, [5, 2, 9])]) (confStateKey s0) = Some [4] \<and>
   lookup (example_db [(confStateKey s0, [4]), (getEntryKey s0 1, [1, 1]),
          (hardStateKey s0, [5, 1, 1]), (getEntryKey s0 2, [5, 2, 9])]) (getEntryKey s0 1) = Some [1, 1]"
proof -
  let ?db = "example_db [(confStateKey s0, [4]), (getEntryKey s0 1, [1, 1]), (getEntryKey s0 2, [1, 2]),
        (getEntryKey s0 3, [1, 3])]"
  let ?db' = "example_db [(confStateKey s0, [4]), (getEntryKey s0 1, [1, 1]),
          (hardStateKey s0, [5, 1, 1]), (getEntryKey s0 2, [5, 2, 9])]"
  let ?es = "[\<lparr>e_Type = EntryNormal, e_Term = 5, e_Index = 2, e_Data = [9]\<rparr>]"
  have li: "LastIndex s0 ?db = Inr (3, None)"
    by (simp add: LastIndex_def prefix_keys_def example_db_def s0_entry_keys s0_keys Uint64_def)
  have ir: "index_range 2 3 = [2, 3]"
    by (simp add: index_range_def upt_rec)
  have m: "marshal_entries example_pb ?es = Inr [[5, 2, 9]]"
    by (simp add: example_pb_def)
  have h: "HardState_Marshal example_pb \<lparr>hs_Term = 5, hs_Vote = 1, hs_Commit = 1\<rparr> = Inr [5, 1, 1]"
    by (simp add: example_pb_def)
  have sv: "save example_pb s0 ?db \<lparr>hs_Term = 5, hs_Vote = 1, hs_Commit = 1\<rparr> ?es = Some (Inr (None, ?db'))"
    by (simp add: save_unfold li m h)
      (simp add: save_batch_def ir db_Write_def example_db_def example_pb_def s0_entry_keys s0_keys)
  have b: "lookup ?db (confStateKey s0) = Some [4]" "lookup ?db (getEntryKey s0 1) = Some [1, 1]"
    by (simp_all add: lookup_def example_db_def s0_entry_keys s0_keys)
  from save_frame [OF s0_def sv]
  have "lookup ?db' (confStateKey s0) = lookup ?db (confStateKey s0)"
    and "(1::u64) \<notin> e_Index ` set ?es \<and> (?es \<noteq> [] \<longrightarrow> 1 < e_Index (hd ?es))
           \<longrightarrow> lookup ?db' (getEntryKey s0 1) = lookup ?db (getEntryKey s0 1)"
    by blast+
  with b sv show ?thesis
    by simp
qed

text \<open>The claim as stated fails when a later entry of the list has an index below that of
  the first one (\<open>save\<close> checks only \<open>entries[0].Index\<close>): saving the entries with
  indices 2 and 1, in this order, overwrites the stored entry 1, although 1 is strictly
  below \<open>entries[0].Index = 2\<close>.\<close>

theorem save_frame_counterexample:
  "save example_pb s0 (example_db [(getEntryKey s0 1, [1, 1]), (getEntryKey s0 2, [1, 2])])
     zero_HardState
     [\<lparr>e_Type = EntryNormal, e_Term = 7, e_Index = 2, e_Data = []\<rparr>,
      \<lparr>e_Type = EntryNormal, e_Term = 7, e_Index = 1, e_Data = []\<rparr>]
     = Some (Inr (None, example_db [(getEntryKey s0 1, [7, 1]), (hardStateKey s0, [0, 0, 0]),
          (getEntryKey s0 2, [7, 2])])) \<and>
   (1 :: u64) < e_Index (hd [\<lparr>e_Type = EntryNormal, e_Term = 7, e_Index = 2, e_Data = []\<rparr>,
      \<lparr>e_Type = EntryNormal, e_Term = 7, e_Index = 1, e_Data = []\<rparr>]) \<and>
   lookup (example_db [(getEntryKey s0 1, [1, 1]), (getEntryKey s0 2, [1, 2])]) (getEntryKey s0 1)
     = Some [1, 1] \<and>
   lookup (example_db [(getEntryKey s0 1, [7, 1]), (hardStateKey s0, [0, 0, 0]),
          (getEntryKey s0 2, [7, 2])]) (getEntryKey s0 1) = Some [7, 1]"
proof -
  let ?db = "example_db [(getEntryKey s0 1, [1, 1]), (getEntryKey s0 2, [1, 2])]"
  let ?es = "[\<lparr>e_Type = EntryNormal, e_Term = 7, e_Index = 2, e_Data = []\<rparr>,
      \<lparr>e_Type = EntryNormal, e_Term = 7, e_Index = 1, e_Data = []\<rparr>]"
  have li: "LastIndex s0 ?db = Inr (2, None)"
    by (simp add: LastIndex_def prefix_keys_def example_db_def s0_entry_keys s0_keys Uint64_def)
  have ir: "index_range 2 2 = [2]"
    by (simp add: index_range_def)
  have m: "marshal_entries example_pb ?es = Inr [[7, 2], [7, 1]]"
    by (simp add: example_pb_def)
  have h: "HardState_Marshal example_pb zero_HardState = Inr [0, 0, 0]"
    by (simp add: example_pb_def zero_HardState_def)
  show ?thesis
    by (simp add: save_unfold li m h)
      (simp add: save_batch_def ir db_Write_def example_db_def example_pb_def s0_entry_keys s0_keys
          lookup_def)
qed

section \<open>Start\<close>

lemma save_dummy_fresh:
  assumes s: "s = openRaftStorage prefix conf"
    and fresh: "prefix_keys (contents db) (entryKeyPrefix s) = []"
    and nf: "iter_fault db = None" "write_fault db = None"
    and m: "HardState_Marshal pb hs = Inr sb" "Entry_Marshal pb zero_Entry = Inr eb"
  shows "\<exists>db'. save pb s db hs [zero_Entry] = Some (Inr (None, db')) \<and>
         lookup db' (getEntryKey s 0) = Some eb \<and> lookup db' (hardStateKey s) = Some sb \<and>
         (\<forall>i. i \<noteq> 0 \<longrightarrow> lookup db' (getEntryKey s i) = lookup db (getEntryKey s i))"
proof -
  let ?db' = "fst (db_Write db (save_batch s sb 0 [zero_Entry] [eb]))"
  have li: "LastIndex s db = Inr (0, None)"
    using fresh nf by (simp add: LastIndex_def)
  have me: "marshal_entries pb [zero_Entry] = Inr [eb]"
    using m by simp
  have z: "e_Index zero_Entry = 0"
    by (simp add: zero_Entry_def)
  have sv: "save pb s db hs [zero_Entry] = Some (Inr (None, ?db'))"
    using li me m(1) z nf by (simp add: save_unfold db_Write_def)
  have 1: "lookup ?db' (getEntryKey s 0) = Some eb"
    using save_batch_written [of "[eb]" "[zero_Entry]" 0 s sb 0 "lookup db"] nf z
    by (simp add: lookup_commit)
  have 2: "lookup ?db' (hardStateKey s) = Some sb"
    using save_batch_hardstate [OF s, of "[eb]" "[zero_Entry]" sb 0 "lookup db"] nf
    by (simp add: lookup_commit)
  have 3: "lookup ?db' (getEntryKey s i) = lookup db (getEntryKey s i)" if "i \<noteq> 0" for i
  proof -
    have "getEntryKey s i \<noteq> hardStateKey s"
      unfolding s by (rule getEntryKey_not_special(1))
    moreover have "j \<notin> e_Index ` set [zero_Entry] \<and>
        ([zero_Entry] = [] \<or> j < e_Index (hd [zero_Entry]) \<or> 0 < j)"
      if "getEntryKey s i = getEntryKey s j" for j
      using that \<open>i \<noteq> 0\<close> by (simp add: getEntryKey_inj z word_neq_0_conv)
    ultimately show ?thesis
      using save_batch_frame [of "[eb]" "[zero_Entry]" "getEntryKey s i" s 0 sb "lookup db"] nf
      by (simp add: lookup_commit)
  qed
  from sv 1 2 3 show ?thesis
    by blast
qed

lemma Start_fresh_example:
  "IsInitialized s0 (example_db []) = (False, None)"
  "InitialState example_pb s0 (example_db []) = (zero_HardState, zero_ConfState, None)"
  "save example_pb s0 (example_db []) zero_HardState [zero_Entry] =
     Some (Inr (None, example_db [(hardStateKey s0, [0, 0, 0]), (getEntryKey s0 0, [0, 0])]))"
proof -
  show "IsInitialized s0 (example_db []) = (False, None)"
    by (simp add: IsInitialized_def db_Get_def example_db_def)
  show "InitialState example_pb s0 (example_db []) = (zero_HardState, zero_ConfState, None)"
    by (simp add: InitialState_def db_Get_def example_db_def example_pb_def s0_def openRaftStorage_def)
  have li: "LastIndex s0 (example_db []) = Inr (0, None)"
    by (simp add: LastIndex_def prefix_keys_def example_db_def)
  have ir: "index_range 0 0 = [0]"
    by (simp add: index_range_def)
  have m: "marshal_entries example_pb [zero_Entry] = Inr [[0, 0]]"
    by (simp add: example_pb_def zero_Entry_def)
  have h: "HardState_Marshal example_pb zero_HardState = Inr [0, 0, 0]"
    by (simp add: example_pb_def zero_HardState_def)
  have z: "e_Index zero_Entry = 0"
    by (simp add: zero_Entry_def)
  show "save example_pb s0 (example_db []) zero_HardState [zero_Entry] =
     Some (Inr (None, example_db [(hardStateKey s0, [0, 0, 0]), (getEntryKey s0 0, [0, 0])]))"
    by (simp add: save_unfold li m h z)
      (simp add: save_batch_def ir z db_Write_def example_db_def example_pb_def zero_Entry_def
        s0_entry_keys s0_keys)
qed

text \<open>C8 (as amended): on initialised storage \<open>Start(lo)\<close> sets the applied watermark of
  the configuration to \<open>lo\<close>, restarts the node with that configuration and leaves the
  store alone. On uninitialised storage it panics unless \<open>lo = 0\<close>; with \<open>lo = 0\<close> it
  saves the initial HardState together with one zero-valued (dummy) entry, ignores the
  error of that save, and starts the node with the configured peers. The index of the dummy
  entry is 0: on a store with no entry keys and no faults the save writes it under the key
  of index 0 and changes the key of no other index.\<close>

theorem Start_initialisation:
  "(IsInitialized (storage l) db = (True, None) \<longrightarrow>
      Start pb l db lo = Some (Inr (None,
        l\<lparr>config := (config l)\<lparr>cfg_Storage := Some (storage l), cfg_Applied := lo\<rparr>,
          node := Some (RestartNode ((config l)\<lparr>cfg_Storage := Some (storage l), cfg_Applied := lo\<rparr>)),
          serving := True, running := True\<rparr>, db))) \<and>
   (IsInitialized (storage l) db = (False, None) \<and> lo \<noteq> 0 \<longrightarrow>
      Start pb l db lo = Some (Inl (Panic ''storage uninitialized but state machine not fresh''))) \<and>
   (IsInitialized (storage l) db = (False, None) \<and> lo = 0 \<and>
    InitialState pb (storage l) db = (hs, cs, None) \<and>
    save pb (storage l) db hs [zero_Entry] = Some (Inr (e, db')) \<longrightarrow>
      Start pb l db lo = Some (Inr (None,
        l\<lparr>config := (config l)\<lparr>cfg_Storage := Some (storage l)\<rparr>,
          node := Some (StartNode ((config l)\<lparr>cfg_Storage := Some (storage l)\<rparr>) (initialNodes l)),
          serving := True, running := True\<rparr>, db'))) \<and>
   e_Index zero_Entry = 0 \<and>
   (storage l = openRaftStorage prefix conf \<and>
    prefix_keys (contents db) (entryKeyPrefix (storage l)) = [] \<and>
    iter_fault db = None \<and> write_fault db = None \<and>
    HardState_Marshal pb hs = Inr sb \<and> Entry_Marshal pb zero_Entry = Inr eb \<longrightarrow>
      (\<exists>db'. save pb (storage l) db hs [zero_Entry] = Some (Inr (None, db')) \<and>
         lookup db' (getEntryKey (storage l) 0) = Some eb \<and>
         lookup db' (hardStateKey (storage l)) = Some sb \<and>
         (\<forall>i. i \<noteq> 0 \<longrightarrow>
            lookup db' (getEntryKey (storage l) i) = lookup db (getEntryKey (storage l) i))))"
proof (intro conjI impI)
  assume "IsInitialized (storage l) db = (True, None)"
  then show "Start pb l db lo = Some (Inr (None,
        l\<lparr>config := (config l)\<lparr>cfg_Storage := Some (storage l), cfg_Applied := lo\<rparr>,
          node := Some (RestartNode ((config l)\<lparr>cfg_Storage := Some (storage l), cfg_Applied := lo\<rparr>)),
          serving := True, running := True\<rparr>, db))"
    by (simp add: Start_def)
next
  assume "IsInitialized (storage l) db = (False, None) \<and> lo \<noteq> 0"
  then show "Start pb l db lo = Some (Inl (Panic ''storage uninitialized but state machine not fresh''))"
    by (simp add: Start_def)
next
  assume "IsInitialized (storage l) db = (False, None) \<and> lo = 0 \<and>
    InitialState pb (storage l) db = (hs, cs, None) \<and>
    save pb (storage l) db hs [zero_Entry] = Some (Inr (e, db'))"
  then show "Start pb l db lo = Some (Inr (None,
        l\<lparr>config := (config l)\<lparr>cfg_Storage := Some (storage l)\<rparr>,
          node := Some (StartNode ((config l)\<lparr>cfg_Storage := Some (storage l)\<rparr>) (initialNodes l)),
          serving := True, running := True\<rparr>, db'))"
    by (simp add: Start_def)
next
  show "e_Index zero_Entry = 0"
    by (simp add: zero_Entry_def)
next
  assume "storage l = openRaftStorage prefix conf \<and>
    prefix_keys (contents db) (entryKeyPrefix (storage l)) = [] \<and>
    iter_fault db = None \<and> write_fault db = None \<and>
    HardState_Marshal pb hs = Inr sb \<and> Entry_Marshal pb zero_Entry = Inr eb"
  then show "\<exists>db'. save pb (storage l) db hs [zero_Entry] = Some (Inr (None, db')) \<and>
         lookup db' (getEntryKey (storage l) 0) = Some eb \<and>
         lookup db' (hardStateKey (storage l)) = Some sb \<and>
         (\<forall>i. i \<noteq> 0 \<longrightarrow>
            lookup db' (getEntryKey (storage l) i) = lookup db (getEntryKey (storage l) i))"
    using save_dummy_fresh [of "storage l" prefix conf db pb hs sb eb] by blast
qed


text \<open>A witness: \<open>Start(0)\<close> on the empty store, and \<open>Start(7)\<close> on the store it leaves.\<close>

theorem Start_initialisation_witness:
  "Start example_pb example_log (example_db []) 0 =
     Some (Inr (None,
       example_log\<lparr>config := (config example_log)\<lparr>cfg_Storage := Some s0\<rparr>,
         node := Some (StartNode ((config example_log)\<lparr>cfg_Storage := Some s0\<rparr>)
                  (initialNodes example_log)),
         serving := True, running := True\<rparr>,
       example_db [(hardStateKey s0, [0, 0, 0]), (getEntryKey s0 0, [0, 0])])) \<and>
   Start example_pb example_log (example_db [(hardStateKey s0, [0, 0, 0]), (getEntryKey s0 0, [0, 0])]) 7 =
     Some (Inr (None,
       example_log\<lparr>config := (config example_log)\<lparr>cfg_Storage := Some s0, cfg_Applied := 7\<rparr>,
         node := Some (RestartNode ((config example_log)\<lparr>cfg_Storage := Some s0, cfg_Applied := 7\<rparr>)),
         serving := True, running := True\<rparr>,
       example_db [(hardStateKey s0, [0, 0, 0]), (getEntryKey s0 0, [0, 0])]))"
proof -
  have st: "storage example_log = s0"
    by (simp add: example_log_def)
  have i2: "IsInitialized s0 (example_db [(hardStateKey s0, [0, 0, 0]), (getEntryKey s0 0, [0, 0])])
      = (True, None)"
    by (simp add: IsInitialized_def db_Get_def example_db_def)
  from Start_initialisation [of example_log "example_db []" example_pb 0 zero_HardState zero_ConfState
      None "example_db [(hardStateKey s0, [0, 0, 0]), (getEntryKey s0 0, [0, 0])]"]
    Start_initialisation [of example_log
      "example_db [(hardStateKey s0, [0, 0, 0]), (getEntryKey s0 0, [0, 0])]" example_pb 7]
  show ?thesis
    using Start_fresh_example i2 by (simp add: st)
qed

text \<open>The claim as stated fails: on the empty (fresh) store \<open>Start(0)\<close> writes the dummy
  entry under the key of index 0 and nothing under the key of index 1; and \<open>Start(5)\<close> on
  the same fresh store panics instead of writing an entry and starting the node.\<close>

theorem Start_dummy_index_counterexample:
  "IsInitialized (storage example_log) (example_db []) = (False, None) \<and>
   Start example_pb example_log (example_db []) 0 =
     Some (Inr (None,
       example_log\<lparr>config := (config example_log)\<lparr>cfg_Storage := Some s0\<rparr>,
         node := Some (StartNode ((config example_log)\<lparr>cfg_Storage := Some s0\<rparr>)
                  (initialNodes example_log)),
         serving := True, running := True\<rparr>,
       example_db [(hardStateKey s0, [0, 0, 0]), (getEntryKey s0 0, [0, 0])])) \<and>
   lookup (example_db [(hardStateKey s0, [0, 0, 0]), (getEntryKey s0 0, [0, 0])]) (getEntryKey s0 1) = None \<and>
   lookup (example_db [(hardStateKey s0, [0, 0, 0]), (getEntryKey s0 0, [0, 0])]) (getEntryKey s0 0)
     = Some [0, 0] \<and>
   Start example_pb example_log (example_db []) 5 =
     Some (Inl (Panic ''storage uninitialized but state machine not fresh''))"
proof -
  have st: "storage example_log = s0"
    by (simp add: example_log_def)
  have 1: "Start example_pb example_log (example_db []) 0 =
     Some (Inr (None,
       example_log\<lparr>config := (config example_log)\<lparr>cfg_Storage := Some s0\<rparr>,
         node := Some (StartNode ((config example_log)\<lparr>cfg_Storage := Some s0\<rparr>)
                  (initialNodes example_log)),
         serving := True, running := True\<rparr>,
       example_db [(hardStateKey s0, [0, 0, 0]), (getEntryKey s0 0, [0, 0])]))"
    by (simp add: Start_def st Start_fresh_example)
  have 2: "Start example_pb example_log (example_db []) 5 =
     Some (Inl (Panic ''storage uninitialized but state machine not fresh''))"
    by (simp add: Start_def st Start_fresh_example)
  have 3: "lookup (example_db [(hardStateKey s0, [0, 0, 0]), (getEntryKey s0 0, [0, 0])]) (getEntryKey s0 1) = None"
    "lookup (example_db [(hardStateKey s0, [0, 0, 0]), (getEntryKey s0 0, [0, 0])]) (getEntryKey s0 0)
     = Some [0, 0]"
    by (simp_all add: lookup_def example_db_def s0_entry_keys s0_keys)
  from 1 2 3 show ?thesis
    by (simp add: st Start_fresh_example)
qed

section \<open>Entries\<close>

lemma unat_add_size:
  "unat (sz :: u64) + k < 2 ^ 64 \<Longrightarrow> unat (sz + word_of_nat k) = unat sz + k"
proof -
  assume a: "unat sz + k < 2 ^ 64"
  then have k: "unat (word_of_nat k :: u64) = k"
    by (simp add: unat_of_nat)
  with a have "unat sz + unat (word_of_nat k :: u64) < 2 ^ LENGTH(64)"
    by simp
  then have "unat (sz + word_of_nat k) = unat sz + unat (word_of_nat k :: u64)"
    by (simp only: unat_add_lem)
  with k show ?thesis by simp
qed

lemma Entries_loop_acc:
  assumes "map (Entry_Unmarshal pb) vs = map Inr es"
    and pos: "\<And>e. 0 < Entry_Size pb e"
    and nov: "unat sz + total_size pb es < 2 ^ 64"
  shows "\<exists>n \<le> length es. Entries_loop pb it maxSize vs acc sz = (acc @ take n es, it) \<and>
        (acc = [] \<and> es \<noteq> [] \<longrightarrow> 1 \<le> n) \<and>
        ((acc \<noteq> [] \<and> 0 < n) \<or> 1 < n \<longrightarrow> unat sz + total_size pb (take n es) \<le> unat maxSize) \<and>
        (n < length es \<longrightarrow> unat maxSize < unat sz + total_size pb (take (Suc n) es))"
  using assms(1) nov
proof (induction vs arbitrary: es acc sz)
  case Nil
  then show ?case by simp
next
  case (Cons v vs)
  then obtain e es' where es: "es = e # es'" and v: "Entry_Unmarshal pb v = Inr e"
    and vs: "map (Entry_Unmarshal pb) vs = map Inr es'"
    by (cases es) auto
  let ?sz' = "sz + word_of_nat (Entry_Size pb e)"
  from Cons.prems(2) es have b: "unat sz + Entry_Size pb e + total_size pb es' < 2 ^ 64"
    by (simp add: total_size_def)
  then have u: "unat ?sz' = unat sz + Entry_Size pb e"
    by (intro unat_add_size) simp
  show ?case
  proof (cases "?sz' > maxSize \<and> length acc > 0")
    case True
    then have "Entries_loop pb it maxSize (v # vs) acc sz = (acc, it)"
      using v by (simp add: Let_def)
    moreover from True have "unat maxSize < unat sz + Entry_Size pb e" "acc \<noteq> []"
      using u by (auto simp: word_less_nat_alt)
    ultimately show ?thesis
      unfolding es by (intro exI [of _ 0]) (simp add: total_size_def)
  next
    case False
    show ?thesis
    proof (cases "?sz' \<ge> maxSize")
      case ge: True
      then have r: "Entries_loop pb it maxSize (v # vs) acc sz = (acc @ [e], it)"
        using v False by (simp add: Let_def)
      from ge u have m: "unat maxSize \<le> unat sz + Entry_Size pb e"
        by (simp add: word_le_nat_alt)
      from False u have f: "acc \<noteq> [] \<Longrightarrow> unat sz + Entry_Size pb e \<le> unat maxSize"
        by (auto simp: word_less_nat_alt not_less)
      have c: "unat maxSize < unat sz + total_size pb (take (Suc 1) (e # es'))" if "1 < length (e # es')"
      proof -
        from that obtain e2 es2 where "es' = e2 # es2"
          by (cases es') auto
        with m pos [of e2] show ?thesis
          by (simp add: total_size_def)
      qed
      show ?thesis
        unfolding es using r f c
        by (intro exI [of _ 1]) (auto simp: total_size_def)
    next
      case lt: False
      then have ngt: "\<not> ?sz' > maxSize"
        by simp
      have r: "Entries_loop pb it maxSize (v # vs) acc sz =
          Entries_loop pb it maxSize vs (acc @ [e]) ?sz'"
        using v ngt lt by (simp add: Let_def)
      from lt u have m: "unat sz + Entry_Size pb e < unat maxSize"
        by (simp add: word_le_nat_alt not_le)
      from b u have "unat ?sz' + total_size pb es' < 2 ^ 64"
        by simp
      from Cons.IH [OF vs this, of "acc @ [e]"]
      obtain n where n: "n \<le> length es'"
        "Entries_loop pb it maxSize vs (acc @ [e]) ?sz' = ((acc @ [e]) @ take n es', it)"
        "0 < n \<longrightarrow> unat ?sz' + total_size pb (take n es') \<le> unat maxSize"
        "n < length es' \<longrightarrow> unat maxSize < unat ?sz' + total_size pb (take (Suc n) es')"
        by auto
      show ?thesis
        unfolding es using n r m u
        by (intro exI [of _ "Suc n"]) (auto simp: total_size_def)
    qed
  qed
qed


lemma set_range_keys:
  "set (range_keys c start lmt) = {k \<in> fst ` set c. start \<le> k \<and> k < lmt}"
  by (auto simp: range_keys_def)

lemma sorted_distinct_range_keys:
  "sorted (range_keys c start lmt)" "distinct (range_keys c start lmt)"
  by (simp_all add: range_keys_def)

lemma sorted_map_getEntryKey: "sorted (map (getEntryKey s) js) = sorted js"
  by (induction js) (auto simp: getEntryKey_le)

lemma distinct_map_getEntryKey: "distinct (map (getEntryKey s) js) = distinct js"
  by (simp add: distinct_map inj_on_def getEntryKey_inj)

lemma range_keys_entries:
  assumes wf: "\<forall>k \<in> set (range_keys (contents db) (getEntryKey s lo) (getEntryKey s hi)).
                \<exists>i. k = getEntryKey s i"
  shows "range_keys (contents db) (getEntryKey s lo) (getEntryKey s hi)
       = map (getEntryKey s) (stored_indices s db lo hi)"
proof (rule sorted_distinct_set_unique)
  let ?I = "{i. lo \<le> i \<and> i < hi \<and> lookup db (getEntryKey s i) \<noteq> None}"
  have fin: "finite ?I" by simp
  show "sorted (range_keys (contents db) (getEntryKey s lo) (getEntryKey s hi))"
    "distinct (range_keys (contents db) (getEntryKey s lo) (getEntryKey s hi))"
    by (rule sorted_distinct_range_keys)+
  show "sorted (map (getEntryKey s) (stored_indices s db lo hi))"
    by (simp add: sorted_map_getEntryKey stored_indices_def)
  show "distinct (map (getEntryKey s) (stored_indices s db lo hi))"
    by (simp add: distinct_map_getEntryKey stored_indices_def)
  have mem: "k \<in> fst ` set (contents db) \<longleftrightarrow> lookup db k \<noteq> None" for k
    by (simp add: lookup_def map_of_eq_None_iff)
  show "set (range_keys (contents db) (getEntryKey s lo) (getEntryKey s hi))
      = set (map (getEntryKey s) (stored_indices s db lo hi))"
  proof (intro set_eqI iffI)
    fix k assume k: "k \<in> set (range_keys (contents db) (getEntryKey s lo) (getEntryKey s hi))"
    with wf obtain i where i: "k = getEntryKey s i" by blast
    from k have "lo \<le> i \<and> i < hi \<and> lookup db (getEntryKey s i) \<noteq> None"
      unfolding set_range_keys i using mem [of "getEntryKey s i"]
      by (simp add: getEntryKey_le getEntryKey_less)
    then show "k \<in> set (map (getEntryKey s) (stored_indices s db lo hi))"
      unfolding i by (simp add: stored_indices_def)
  next
    fix k assume "k \<in> set (map (getEntryKey s) (stored_indices s db lo hi))"
    then obtain i where i: "k = getEntryKey s i" "lo \<le> i" "i < hi" "lookup db (getEntryKey s i) \<noteq> None"
      by (auto simp: stored_indices_def)
    then show "k \<in> set (range_keys (contents db) (getEntryKey s lo) (getEntryKey s hi))"
      unfolding set_range_keys using mem [of "getEntryKey s i"]
      by (simp add: getEntryKey_le getEntryKey_less)
  qed
qed

lemma stored_indices_example:
  "stored_indices s0
     (example_db [(getEntryKey s0 1, [1, 1, 9, 9]), (getEntryKey s0 2, [1, 2]), (getEntryKey s0 3, [1, 3, 7])])
     1 4 = [1, 2, 3]"
proof -
  have "{i :: u64. 1 \<le> i \<and> i < 4 \<and>
      lookup (example_db [(getEntryKey s0 1, [1, 1, 9, 9]), (getEntryKey s0 2, [1, 2]),
        (getEntryKey s0 3, [1, 3, 7])]) (getEntryKey s0 i) \<noteq> None} = {1, 2, 3}"
    by (auto simp: lookup_def example_db_def getEntryKey_inj)
  then show ?thesis
    by (simp add: stored_indices_def)
qed

text \<open>C5: let the keys in the iterated range all be entry keys, let the values stored there
  decode, let \<open>Size\<close> of an entry be positive and the total size of the stored entries of
  the range be below \<open>2^64\<close> (the running size is a \<open>uint64\<close>). Then
  \<open>Entries(lo, hi, maxSize)\<close> returns, with the iterator's error, the first \<open>n\<close> of the
  decoded entries stored at the indices in \<open>[lo, hi)\<close>, taken in increasing index order,
  where \<open>n\<close> is at least 1 when there is any such entry; if more than one entry is
  returned their total size does not exceed \<open>maxSize\<close>; and if an entry is left out, then
  with the first entry left out the total size would strictly exceed \<open>maxSize\<close>.\<close>

theorem Entries_accumulates:
  assumes wf: "\<forall>k \<in> set (range_keys (contents db) (getEntryKey s lo) (getEntryKey s hi)).
                \<exists>i. k = getEntryKey s i"
    and dec: "\<forall>i \<in> set (stored_indices s db lo hi).
                \<exists>e. Entry_Unmarshal pb (the (lookup db (getEntryKey s i))) = Inr e"
    and pos: "\<forall>e. 0 < Entry_Size pb e"
    and nov: "total_size pb (stored_entries pb s db lo hi) < 2 ^ 64"
  shows "\<exists>n \<le> length (stored_entries pb s db lo hi).
      Entries pb s db lo hi maxSize = (take n (stored_entries pb s db lo hi), iter_fault db) \<and>
      (stored_entries pb s db lo hi \<noteq> [] \<longrightarrow> 1 \<le> n) \<and>
      (1 < n \<longrightarrow> total_size pb (take n (stored_entries pb s db lo hi)) \<le> unat maxSize) \<and>
      (n < length (stored_entries pb s db lo hi) \<longrightarrow>
         unat maxSize < total_size pb (take (Suc n) (stored_entries pb s db lo hi))) \<and>
      sorted (stored_indices s db lo hi) \<and> distinct (stored_indices s db lo hi) \<and>
      set (stored_indices s db lo hi) = {i. lo \<le> i \<and> i < hi \<and> lookup db (getEntryKey s i) \<noteq> None}"
proof -
  let ?es = "stored_entries pb s db lo hi"
  let ?vs = "map (\<lambda>k. the (map_of (contents db) k))
               (range_keys (contents db) (getEntryKey s lo) (getEntryKey s hi))"
  have vs: "?vs = map (\<lambda>i. the (lookup db (getEntryKey s i))) (stored_indices s db lo hi)"
    unfolding range_keys_entries [OF wf] by (simp add: lookup_def comp_def)
  have d: "map (Entry_Unmarshal pb) ?vs = map Inr ?es"
    unfolding vs stored_entries_def using dec by auto
  have E: "Entries pb s db lo hi maxSize = Entries_loop pb (iter_fault db) maxSize ?vs [] 0"
    by (simp add: Entries_def)
  from nov have "unat (0 :: u64) + total_size pb ?es < 2 ^ 64"
    by simp
  from Entries_loop_acc [OF d _ this, of "iter_fault db" maxSize "[]"] pos
  obtain n where "n \<le> length ?es"
    "Entries_loop pb (iter_fault db) maxSize ?vs [] 0 = (take n ?es, iter_fault db)"
    "?es \<noteq> [] \<longrightarrow> 1 \<le> n"
    "1 < n \<longrightarrow> total_size pb (take n ?es) \<le> unat maxSize"
    "n < length ?es \<longrightarrow> unat maxSize < total_size pb (take (Suc n) ?es)"
    by auto
  moreover have "sorted (stored_indices s db lo hi) \<and> distinct (stored_indices s db lo hi) \<and>
      set (stored_indices s db lo hi) = {i. lo \<le> i \<and> i < hi \<and> lookup db (getEntryKey s i) \<noteq> None}"
    by (simp add: stored_indices_def)
  ultimately show ?thesis
    unfolding E by blast
qed


text \<open>A witness: entries of sizes 4, 2 and 3 at the indices 1, 2 and 3 and \<open>maxSize = 6\<close>;
  the first two are returned.\<close>

theorem Entries_accumulates_witness:
  "Entries example_pb s0
     (example_db [(getEntryKey s0 1, [1, 1, 9, 9]), (getEntryKey s0 2, [1, 2]), (getEntryKey s0 3, [1, 3, 7])])
     1 4 6
   = ([\<lparr>e_Type = EntryNormal, e_Term = 1, e_Index = 1, e_Data = [9, 9]\<rparr>,
       \<lparr>e_Type = EntryNormal, e_Term = 1, e_Index = 2, e_Data = []\<rparr>], None) \<and>
   stored_entries example_pb s0
     (example_db [(getEntryKey s0 1, [1, 1, 9, 9]), (getEntryKey s0 2, [1, 2]), (getEntryKey s0 3, [1, 3, 7])])
     1 4
   = [\<lparr>e_Type = EntryNormal, e_Term = 1, e_Index = 1, e_Data = [9, 9]\<rparr>,
      \<lparr>e_Type = EntryNormal, e_Term = 1, e_Index = 2, e_Data = []\<rparr>,
      \<lparr>e_Type = EntryNormal, e_Term = 1, e_Index = 3, e_Data = [7]\<rparr>] \<and>
   (\<exists>n \<le> 3.
      Entries example_pb s0
        (example_db [(getEntryKey s0 1, [1, 1, 9, 9]), (getEntryKey s0 2, [1, 2]), (getEntryKey s0 3, [1, 3, 7])])
        1 4 6
      = (take n [\<lparr>e_Type = EntryNormal, e_Term = 1, e_Index = 1, e_Data = [9, 9]\<rparr>,
           \<lparr>e_Type = EntryNormal, e_Term = 1, e_Index = 2, e_Data = []\<rparr>,
           \<lparr>e_Type = EntryNormal, e_Term = 1, e_Index = 3, e_Data = [7]\<rparr>], None) \<and> 1 \<le> n)"
proof -
  let ?db = "example_db [(getEntryKey s0 1, [1, 1, 9, 9]), (getEntryKey s0 2, [1, 2]), (getEntryKey s0 3, [1, 3, 7])]"
  have rk: "range_keys (contents ?db) (getEntryKey s0 1) (getEntryKey s0 4)
      = [getEntryKey s0 1, getEntryKey s0 2, getEntryKey s0 3]"
    by (simp add: range_keys_def example_db_def getEntryKey_le getEntryKey_less getEntryKey_inj)
  have se: "stored_entries example_pb s0 ?db 1 4
     = [\<lparr>e_Type = EntryNormal, e_Term = 1, e_Index = 1, e_Data = [9, 9]\<rparr>,
        \<lparr>e_Type = EntryNormal, e_Term = 1, e_Index = 2, e_Data = []\<rparr>,
        \<lparr>e_Type = EntryNormal, e_Term = 1, e_Index = 3, e_Data = [7]\<rparr>]"
    by (simp add: stored_entries_def stored_indices_example)
      (simp add: lookup_def example_db_def example_pb_def getEntryKey_inj)
  have ev: "Entries example_pb s0 ?db 1 4 6
     = ([\<lparr>e_Type = EntryNormal, e_Term = 1, e_Index = 1, e_Data = [9, 9]\<rparr>,
         \<lparr>e_Type = EntryNormal, e_Term = 1, e_Index = 2, e_Data = []\<rparr>], None)"
    by (simp add: Entries_def rk)
      (simp add: example_db_def example_pb_def getEntryKey_inj)
  have wf: "\<forall>k \<in> set (range_keys (contents ?db) (getEntryKey s0 1) (getEntryKey s0 4)).
                \<exists>i. k = getEntryKey s0 i"
    unfolding rk by auto
  have dec: "\<forall>i \<in> set (stored_indices s0 ?db 1 4).
                \<exists>e. Entry_Unmarshal example_pb (the (lookup ?db (getEntryKey s0 i))) = Inr e"
    unfolding stored_indices_example
    by (simp add: lookup_def example_db_def example_pb_def getEntryKey_inj)
  have pos: "\<forall>e. 0 < Entry_Size example_pb e"
    by (simp add: example_pb_def)
  have nov: "total_size example_pb (stored_entries example_pb s0 ?db 1 4) < 2 ^ 64"
    unfolding se by (simp add: total_size_def example_pb_def)
  have it: "iter_fault ?db = None"
    by (simp add: example_db_def)
  from Entries_accumulates [OF wf dec pos nov, of 6]
  obtain n where n: "n \<le> length (stored_entries example_pb s0 ?db 1 4)"
    "Entries example_pb s0 ?db 1 4 6 = (take n (stored_entries example_pb s0 ?db 1 4), iter_fault ?db)"
    "stored_entries example_pb s0 ?db 1 4 \<noteq> [] \<longrightarrow> 1 \<le> n"
    by blast
  from n have "n \<le> 3 \<and> Entries example_pb s0 ?db 1 4 6 =
      (take n [\<lparr>e_Type = EntryNormal, e_Term = 1, e_Index = 1, e_Data = [9, 9]\<rparr>,
           \<lparr>e_Type = EntryNormal, e_Term = 1, e_Index = 2, e_Data = []\<rparr>,
           \<lparr>e_Type = EntryNormal, e_Term = 1, e_Index = 3, e_Data = [7]\<rparr>], None) \<and> 1 \<le> n"
    unfolding se it by simp
  with ev se show ?thesis
    by blast
qed

section \<open>The VRF: hash-to-curve, the layout of a proof, the hash of a proof\<close>



text \<open>C7: when the point encoding of the package has 32 bytes (its type in the source is
  \<open>[32]byte\<close>), a successful \<open>ECVRF_prove\<close> returns 81 bytes: the sign octet and the 32
  bytes of \<open>\<Gamma> = h^x\<close>, then \<open>I2OSP c 16\<close>, 16 bytes that are the big-endian digits of
  the challenge \<open>c\<close>, then \<open>I2OSP s 32\<close>, 32 bytes that are the big-endian digits of
  \<open>s = (k - c * x) mod q\<close>.\<close>

theorem prove_layout:
  assumes len: "\<And>P. length (ToBytes E P) = 32"
    and ok: "ECVRF_prove E pk sk m rnd = Inr pf"
  shows "\<exists>x h kp ks k p1 p2 p3 p5 p6 c.
    expandSecret E sk = Inr x \<and> ECVRF_hash_to_curve E m pk = Inr h \<and>
    rnd = Inr (kp, ks) \<and> expandSecret E ks = Inr k \<and>
    ECP2OS E (G E) = Inr p1 \<and> ECP2OS E h = Inr p2 \<and> S2OS pk = Inr p3 \<and>
    S2OS kp = Inr p5 \<and> ECP2OS E (GeScalarMult E h k) = Inr p6 \<and>
    (let gamma = ToBytes E (GeScalarMult E h x);
         r = (drop_bit 7 (gamma ! 31) + 2) # gamma;
         s = (F2IP k - c * F2IP x) mod q
     in ECVRF_hash_points E [p1, p2, p3, r, p5, p6] = Inr c \<and>
        pf = r @ I2OSP c 16 @ I2OSP s 32 \<and>
        length pf = 81 \<and> length r = 33 \<and> length (I2OSP c 16) = 16 \<and>
        length (I2OSP s 32) = 32 \<and>
        OS2IP (I2OSP c 16) = c \<and> OS2IP (I2OSP s 32) = s)"
proof -
  from ECVRF_prove_InrD [OF ok] obtain x h r kp ks k p1 p2 p3 p5 p6 c where
    f: "expandSecret E sk = Inr x" "ECVRF_hash_to_curve E m pk = Inr h"
      "ECP2OS E (GeScalarMult E h x) = Inr r" "rnd = Inr (kp, ks)"
      "expandSecret E ks = Inr k" "ECP2OS E (G E) = Inr p1" "ECP2OS E h = Inr p2"
      "S2OS pk = Inr p3" "S2OS kp = Inr p5" "ECP2OS E (GeScalarMult E h k) = Inr p6"
      "ECVRF_hash_points E [p1, p2, p3, r, p5, p6] = Inr c"
      "pf = r @ I2OSP c N @ I2OSP ((F2IP k - c * F2IP x) mod q) N2"
    by blast
  define s where "s = (F2IP k - c * F2IP x) mod q"
  from f(3) have r: "r = (drop_bit 7 (ToBytes E (GeScalarMult E h x) ! 31) + 2) # ToBytes E (GeScalarMult E h x)"
    by (simp add: ECP2OS_def S2OS_Inr)
  have c: "0 \<le> c" "c < 256 ^ 16"
    using ECVRF_hash_points_bound [OF f(11)] by simp_all
  have "s < q" unfolding s_def using q_pos by (rule pos_mod_bound)
  then have s32: "s < 256 ^ 32" using q_bound by (rule less_trans)
  have s0: "0 \<le> s" unfolding s_def using q_pos by (rule pos_mod_sign)
  note s = s0 s32
  have vals: "OS2IP (I2OSP c 16) = c" "OS2IP (I2OSP s 32) = s"
    using c s by (simp_all add: OS2IP_I2OSP)
  have lr: "length r = 33" using r len by simp
  have pf: "pf = r @ I2OSP c 16 @ I2OSP s 32"
    using f(12) by (simp add: s_def N_def N2_def)
  have lp: "length pf = 81" using lr by (simp add: pf length_I2OSP)
  show ?thesis
    apply (rule exI [of _ x], rule exI [of _ h], rule exI [of _ kp], rule exI [of _ ks],
        rule exI [of _ k], rule exI [of _ p1], rule exI [of _ p2], rule exI [of _ p3],
        rule exI [of _ p5], rule exI [of _ p6], rule exI [of _ c])
    using f(1,2,4-10) f(11) [unfolded r] pf [unfolded r] lp lr [unfolded r] vals
    by (simp add: Let_def length_I2OSP s_def)
qed

text \<open>A witness: a proof on the example curve.\<close>

theorem prove_layout_witness:
  "(\<forall>P. length (ToBytes one_point_curve P) = 32) \<and>
   (\<exists>pf. ECVRF_prove one_point_curve pk0 sk0 [] (Inr (pk0, ks1)) = Inr pf \<and>
      length pf = 81 \<and> take 33 pf = 2 # 1 # replicate 31 0)"
proof -
  from toy_prove [OF example_lengths(1,2,1,3)] obtain c s where
    p: "ECVRF_prove one_point_curve pk0 sk0 [] (Inr (pk0, ks1))
      = Inr ((2 # 1 # replicate 31 0) @ I2OSP c 16 @ I2OSP s 32)"
    by blast
  have len: "\<And>P. length (ToBytes one_point_curve P) = 32" by simp
  from prove_layout [OF len p]
  have "length ((2 # 1 # replicate 31 0) @ I2OSP c 16 @ I2OSP s 32) = 81"
    by (auto simp add: Let_def)
  with p len show ?thesis by simp
qed

text \<open>C2: two successful runs of \<open>ECVRF_prove\<close> on the same keys and message, whatever
  the two outcomes of the key generation that supplies the ephemeral scalar, give proofs
  with the same \<open>ECVRF_proof2hash\<close>: the first 32 bytes of the encoding of \<open>\<Gamma> = h^x\<close>,
  where \<open>x\<close> is the expanded secret and \<open>h\<close> the point that \<open>m\<close> and \<open>pk\<close> hash to.\<close>

theorem proof2hash_deterministic:
  assumes "ECVRF_prove E pk sk m rnd1 = Inr prf1"
    and "ECVRF_prove E pk sk m rnd2 = Inr prf2"
  shows "ECVRF_proof2hash prf1 = ECVRF_proof2hash prf2 \<and>
    (\<exists>x h. expandSecret E sk = Inr x \<and> ECVRF_hash_to_curve E m pk = Inr h \<and>
       ECVRF_proof2hash prf1 = Inr (take 32 (ToBytes E (GeScalarMult E h x))))"
proof -
  have *: "\<exists>x h. expandSecret E sk = Inr x \<and> ECVRF_hash_to_curve E m pk = Inr h \<and>
       ECVRF_proof2hash pf = Inr (take 32 (ToBytes E (GeScalarMult E h x)))"
    if "ECVRF_prove E pk sk m rnd = Inr pf" for rnd pf
  proof -
    from ECVRF_prove_InrD [OF that] obtain x h r rest where
      f: "expandSecret E sk = Inr x" "ECVRF_hash_to_curve E m pk = Inr h"
        "ECP2OS E (GeScalarMult E h x) = Inr r" "pf = r @ rest"
      by blast
    from f(3) have r: "r = (drop_bit 7 (ToBytes E (GeScalarMult E h x) ! 31) + 2) # ToBytes E (GeScalarMult E h x)"
      and l: "32 \<le> length (ToBytes E (GeScalarMult E h x))"
      by (simp_all add: ECP2OS_def S2OS_Inr)
    from l have "ECVRF_proof2hash pf = Inr (take 32 (ToBytes E (GeScalarMult E h x)))"
      by (simp add: ECVRF_proof2hash_def f(4) r N2_def)
    with f(1,2) show ?thesis by blast
  qed
  from * [OF assms(1)] * [OF assms(2)] show ?thesis by auto
qed

text \<open>A witness: two runs on the example curve with different ephemeral keys.\<close>

theorem proof2hash_deterministic_witness:
  "\<exists>p1 p2. ECVRF_prove one_point_curve pk0 sk0 [] (Inr (pk0, ks1)) = Inr p1 \<and>
     ECVRF_prove one_point_curve pk0 sk0 [] (Inr (pk0, ks2)) = Inr p2 \<and>
     ECVRF_proof2hash p1 = ECVRF_proof2hash p2 \<and>
     ECVRF_proof2hash p1 = Inr (1 # replicate 31 0)"
proof -
  from toy_prove [OF example_lengths(1,2,1,3)] obtain p1 where
    p1: "ECVRF_prove one_point_curve pk0 sk0 [] (Inr (pk0, ks1)) = Inr p1"
    by blast
  from toy_prove [OF example_lengths(1,2,1,4)] obtain p2 where
    p2: "ECVRF_prove one_point_curve pk0 sk0 [] (Inr (pk0, ks2)) = Inr p2"
    by blast
  from proof2hash_deterministic [OF p1 p2]
  have "ECVRF_proof2hash p1 = ECVRF_proof2hash p2 \<and>
     ECVRF_proof2hash p1 = Inr (1 # replicate 31 0)"
    by auto
  with p1 p2 show ?thesis by blast
qed

section \<open>The VRF: a proof verifies\<close>



end
